theory Spec2Isabelle
  imports Main "HOL-Library.Multiset" "HOL-Library.Sublist"
begin

section \<open>JavaScript values and strings\<close>

text \<open>
  The enrichment script \<^verbatim>\<open>scripts/enrich-images.mjs\<close> exists in two generations in the
  repository: the first one (Openverse, then Wikimedia Commons) and the current one
  (upstream field, OpenAgenda, library scraper, Openverse). Definitions without a suffix
  embed the current generation; the suffix \<open>_v1\<close> marks the first generation where the two
  differ.

  A JavaScript string is modelled as a \<open>string\<close> whose characters are the code units
  U+0000 .. U+00FF (Latin-1); code units above U+00FF are outside the model. JavaScript
  numbers that occur (pixel sizes, scores, counters) are integers and are modelled as
  \<open>int\<close>.
\<close>

datatype js =
    JUndefined
  | JNull
  | JBool bool
  | JNum int
  | JStr string
  | JArr "js list"
  | JObj "(string \<times> js) list"

text \<open>Truthiness, as \<^verbatim>\<open>Boolean(v)\<close>, \<^verbatim>\<open>!v\<close>, \<^verbatim>\<open>if (v)\<close> read a value.\<close>

fun truthy :: "js \<Rightarrow> bool" where
  "truthy JUndefined = False"
| "truthy JNull = False"
| "truthy (JBool b) = b"
| "truthy (JNum n) = (n \<noteq> 0)"
| "truthy (JStr s) = (s \<noteq> [])"
| "truthy (JArr xs) = True"
| "truthy (JObj kvs) = True"

text \<open>\<^verbatim>\<open>a || b\<close>.\<close>

definition js_or :: "js \<Rightarrow> js \<Rightarrow> js" where
  "js_or a b = (if truthy a then a else b)"

text \<open>\<^verbatim>\<open>v?.k\<close>: a property of an object; undefined on everything else that occurs here.\<close>

fun get_prop :: "js \<Rightarrow> string \<Rightarrow> js" where
  "get_prop (JObj kvs) k = (case map_of kvs k of Some x \<Rightarrow> x | None \<Rightarrow> JUndefined)"
| "get_prop v k = JUndefined"

text \<open>\<^verbatim>\<open>v?.[0]\<close> on an array.\<close>

fun index0 :: "js \<Rightarrow> js" where
  "index0 (JArr (x # xs)) = x"
| "index0 v = JUndefined"

text \<open>
  White space of \<^verbatim>\<open>String.prototype.trim\<close> and of the regular expression class
  \<^verbatim>\<open>\s\<close>, within Latin-1: TAB, LF, VT, FF, CR, SPACE and NO-BREAK SPACE.
\<close>

definition js_space :: "char \<Rightarrow> bool" where
  "js_space c = (of_char c \<in> {9, 10, 11, 12, 13, 32, 160 :: nat})"

definition trim :: "string \<Rightarrow> string" where
  "trim s = rev (dropWhile js_space (rev (dropWhile js_space s)))"

section \<open>Event records\<close>

text \<open>
  A row of the met_agenda dataset. The text fields are strings or absent (\<open>None\<close> stands
  for a missing, \<^verbatim>\<open>null\<close> or \<^verbatim>\<open>undefined\<close> property); the image field has no stable
  shape and stays an arbitrary value.
\<close>

record event_row =
  uid :: "string option"
  slug :: "string option"
  title_fr :: "string option"
  title :: "string option"
  title_en :: "string option"
  location_name :: "string option"
  location :: "string option"
  location_title :: "string option"
  location_address :: "string option"
  location_district :: "string option"
  location_city :: "string option"
  city :: "string option"
  originagenda_uid :: "string option"
  location_image :: js

text \<open>\<^verbatim>\<open>row?.f || d\<close> for a text field \<open>f\<close> and a string \<open>d\<close>.\<close>

definition str_or :: "string option \<Rightarrow> string \<Rightarrow> string" where
  "str_or a d = (case a of None \<Rightarrow> d | Some s \<Rightarrow> if s \<noteq> [] then s else d)"

subsection \<open>isMissingImage, bestImageUrlFromRow\<close>

fun isMissingImage_value :: "js \<Rightarrow> bool" where
  "isMissingImage_value JUndefined = True"
| "isMissingImage_value JNull = True"
| "isMissingImage_value (JArr xs) = (length xs = 0)"
| "isMissingImage_value (JStr s) = (trim s = [])"
| "isMissingImage_value (JObj kvs) =
     (\<not> truthy (js_or (get_prop (JObj kvs) ''url'') (get_prop (JObj kvs) ''href'')))"
| "isMissingImage_value v = False"

definition isMissingImage :: "event_row \<Rightarrow> bool" where
  "isMissingImage row = isMissingImage_value (location_image row)"

fun bestImageUrlFromRow_value :: "js \<Rightarrow> js" where
  "bestImageUrlFromRow_value (JStr s) = (if s = [] then JStr [] else JStr s)"
| "bestImageUrlFromRow_value (JArr xs) =
     js_or (js_or (get_prop (index0 (JArr xs)) ''url'') (index0 (JArr xs))) (JStr [])"
| "bestImageUrlFromRow_value (JObj kvs) =
     js_or (js_or (get_prop (JObj kvs) ''url'') (get_prop (JObj kvs) ''href'')) (JStr [])"
| "bestImageUrlFromRow_value v = JStr []"

definition bestImageUrlFromRow :: "event_row \<Rightarrow> js" where
  "bestImageUrlFromRow row = bestImageUrlFromRow_value (location_image row)"

section \<open>Text Normalizer\<close>

text \<open>
  \<^verbatim>\<open>toLowerCase\<close> on Latin-1: A..Z and the letters U+00C0..U+00DE (all but the
  multiplication sign U+00D7) move up by 32.
\<close>

definition toLowerCase_char :: "char \<Rightarrow> char" where
  "toLowerCase_char c =
     (let n = (of_char c :: nat) in
      if (65 \<le> n \<and> n \<le> 90) \<or> (192 \<le> n \<and> n \<le> 214) \<or> (216 \<le> n \<and> n \<le> 222)
      then char_of (n + 32) else c)"

definition toLowerCase :: "string \<Rightarrow> string" where
  "toLowerCase s = map toLowerCase_char s"

text \<open>
  \<^verbatim>\<open>.normalize("NFD").replace(/\p{Diacritic}/gu, "")\<close> on one Latin-1 character: the
  canonical decomposition of an accented letter is its base letter followed by combining
  marks, which all have the property Diacritic and are removed; the characters of
  Latin-1 that themselves have the property (U+005E, U+0060, U+00A8, U+00AF, U+00B4,
  U+00B7, U+00B8) are removed; every other character has no canonical decomposition and
  stays.
\<close>

definition strip_diacritics_char :: "char \<Rightarrow> string" where
  "strip_diacritics_char c =
     (let n = (of_char c :: nat) in
      if n \<in> {94, 96, 168, 175, 180, 183, 184} then []
      else if 192 \<le> n \<and> n \<le> 197 then ''A''
      else if n = 199 then ''C''
      else if 200 \<le> n \<and> n \<le> 203 then ''E''
      else if 204 \<le> n \<and> n \<le> 207 then ''I''
      else if n = 209 then ''N''
      else if 210 \<le> n \<and> n \<le> 214 then ''O''
      else if 217 \<le> n \<and> n \<le> 220 then ''U''
      else if n = 221 then ''Y''
      else if 224 \<le> n \<and> n \<le> 229 then ''a''
      else if n = 231 then ''c''
      else if 232 \<le> n \<and> n \<le> 235 then ''e''
      else if 236 \<le> n \<and> n \<le> 239 then ''i''
      else if n = 241 then ''n''
      else if 242 \<le> n \<and> n \<le> 246 then ''o''
      else if 249 \<le> n \<and> n \<le> 252 then ''u''
      else if n = 253 \<or> n = 255 then ''y''
      else [c])"

definition strip_diacritics :: "string \<Rightarrow> string" where
  "strip_diacritics s = concat (map strip_diacritics_char s)"

text \<open>\<^verbatim>\<open>s.replace(/[P]+/g, " ")\<close>: every maximal run of characters in \<open>P\<close> becomes one space.\<close>

function replace_runs :: "(char \<Rightarrow> bool) \<Rightarrow> string \<Rightarrow> string" where
  "replace_runs P [] = []"
| "replace_runs P (c # cs) =
     (if P c then CHR '' '' # replace_runs P (dropWhile P cs) else c # replace_runs P cs)"
  by pat_completeness auto
termination
  by (relation "measure (\<lambda>(P, s). length s)") (auto simp: length_dropWhile_le less_Suc_eq_le)

definition is_az09 :: "char \<Rightarrow> bool" where
  "is_az09 c = (let n = (of_char c :: nat) in (97 \<le> n \<and> n \<le> 122) \<or> (48 \<le> n \<and> n \<le> 57))"

definition normalizeText :: "string \<Rightarrow> string" where
  "normalizeText s =
     trim (replace_runs js_space
       (replace_runs (\<lambda>c. \<not> is_az09 c) (strip_diacritics (toLowerCase s))))"

text \<open>\<^verbatim>\<open>s.split(" ")\<close>: the pieces between single spaces; one empty piece for the empty string.\<close>

fun split_sp :: "string \<Rightarrow> string list" where
  "split_sp [] = [[]]"
| "split_sp (c # cs) =
     (if c = CHR '' '' then [] # split_sp cs
      else (case split_sp cs of [] \<Rightarrow> [[c]] | w # ws \<Rightarrow> (c # w) # ws))"

definition tokens :: "string \<Rightarrow> string list" where
  "tokens s =
     (let t = filter (\<lambda>x. x \<noteq> []) (split_sp (normalizeText s))
      in filter (\<lambda>x. length x \<ge> 3) t)"

text \<open>
  \<open>overlapScore\<close>: \<open>b\<close> is the \<^verbatim>\<open>Set\<close> of the candidate's tokens; the loop adds one for
  every element of \<open>aTokens\<close> that \<open>b\<close> has.
\<close>

definition overlapScore :: "string list \<Rightarrow> string \<Rightarrow> int" where
  "overlapScore aTokens bText =
     (let b = set (tokens bText)
      in fold (\<lambda>t score. if t \<in> b then score + 1 else score) aTokens 0)"

text \<open>\<^verbatim>\<open>h.includes(n)\<close>.\<close>

fun js_includes :: "string \<Rightarrow> string \<Rightarrow> bool" where
  "js_includes [] n = (n = [])"
| "js_includes (c # cs) n = (prefix n (c # cs) \<or> js_includes cs n)"

definition isBibliotheque :: "event_row \<Rightarrow> bool" where
  "isBibliotheque row =
     js_includes (normalizeText (str_or (location_name row) [])) ''bibliotheque''"

section \<open>Query Builder\<close>

text \<open>\<^verbatim>\<open>parts.join(" ")\<close>.\<close>

fun join_sp :: "string list \<Rightarrow> string" where
  "join_sp [] = []"
| "join_sp [x] = x"
| "join_sp (x # y # ys) = x @ '' '' @ join_sp (y # ys)"

definition row_place :: "event_row \<Rightarrow> string" where
  "row_place row =
     str_or (location_name row) (str_or (location row) (str_or (location_title row) []))"

definition row_address :: "event_row \<Rightarrow> string" where
  "row_address row = str_or (location_address row) []"

definition row_district :: "event_row \<Rightarrow> string" where
  "row_district row = str_or (location_district row) []"

definition row_city :: "event_row \<Rightarrow> string" where
  "row_city row = str_or (location_city row) (str_or (city row) ''Bordeaux'')"

definition row_title :: "event_row \<Rightarrow> string" where
  "row_title row = str_or (title_fr row) (str_or (title row) (str_or (title_en row) []))"

definition buildSearchQuery :: "event_row \<Rightarrow> string" where
  "buildSearchQuery row =
     (let place = row_place row; address = row_address row;
          district = row_district row; cty = row_city row
      in if place \<noteq> []
         then join_sp (filter (\<lambda>p. p \<noteq> []) [place, address, district, cty, ''France''])
         else (let ttl = row_title row
               in join_sp (filter (\<lambda>p. p \<noteq> []) [ttl, cty, ''France''])))"

text \<open>The first generation: title, place and city, with no country.\<close>

definition buildSearchQuery_v1 :: "event_row \<Rightarrow> string" where
  "buildSearchQuery_v1 row =
     (let ttl = row_title row; place = row_place row; cty = row_city row
      in join_sp (filter (\<lambda>p. p \<noteq> []) [ttl, place, cty]))"

subsection \<open>The query in the words of the specification\<close>

text \<open>
  The text of a field (empty when the field is absent), the first non-empty text among
  several fields (empty when there is none), and the space-join of the non-empty parts of
  a list.
\<close>

definition spec_text :: "string option \<Rightarrow> string" where
  "spec_text f = (case f of None \<Rightarrow> [] | Some s \<Rightarrow> s)"

fun spec_first :: "string option list \<Rightarrow> string" where
  "spec_first [] = []"
| "spec_first (f # fs) = (if spec_text f \<noteq> [] then spec_text f else spec_first fs)"

definition spec_join :: "string list \<Rightarrow> string" where
  "spec_join parts =
     (case filter (\<lambda>p. p \<noteq> []) parts of
        [] \<Rightarrow> []
      | p # ps \<Rightarrow> p @ concat (map (\<lambda>x. CHR '' '' # x) ps))"

text \<open>A row with no field set, to build examples from.\<close>

definition blank_row :: event_row where
  "blank_row = \<lparr> uid = None, slug = None, title_fr = None, title = None, title_en = None,
     location_name = None, location = None, location_title = None,
     location_address = None, location_district = None, location_city = None,
     city = None, originagenda_uid = None, location_image = JUndefined \<rparr>"

section \<open>Candidates and source adapters\<close>

text \<open>An exception thrown by an adapter: a rejected \<^verbatim>\<open>fetch\<close>, a body that does not parse,
  or the \<^verbatim>\<open>Error\<close> an adapter throws itself on an HTTP status.\<close>

datatype error = NetworkError | ParseError | HttpError nat

text \<open>
  A candidate, as every adapter returns it. \<open>None\<close> in \<open>width\<close>, \<open>height\<close> and
  \<open>source_url\<close> stands for \<^verbatim>\<open>null\<close> or a property the adapter does not set. The url
  is a value: the upstream field hands on whatever the row holds.
\<close>

record candidate =
  url :: js
  provider :: string
  page_url :: string
  author :: string
  license :: string
  credit :: string
  source_url :: "string option"
  width :: "int option"
  height :: "int option"

text \<open>The configuration constants read from the environment.\<close>

record config =
  OFFICIAL_IMAGES :: bool
  OPENAGENDA_KEY :: string
  MIN_WIDTH :: int
  PREFERRED_OPENVERSE_PROVIDERS :: "string list"

text \<open>\<^verbatim>\<open>parts.join(sep)\<close> for any separator.\<close>

fun join_with :: "string \<Rightarrow> string list \<Rightarrow> string" where
  "join_with sep [] = []"
| "join_with sep [x] = x"
| "join_with sep (x # y # ys) = x @ sep @ join_with sep (y # ys)"

text \<open>\<^verbatim>\<open>n || 0\<close> and \<^verbatim>\<open>n || null\<close> for a number that may be missing.\<close>

definition num_or0 :: "int option \<Rightarrow> int" where
  "num_or0 n = (case n of None \<Rightarrow> 0 | Some v \<Rightarrow> if v \<noteq> 0 then v else 0)"

definition num_or_null :: "int option \<Rightarrow> int option" where
  "num_or_null n = (case n of None \<Rightarrow> None | Some v \<Rightarrow> if v \<noteq> 0 then Some v else None)"

text \<open>
  \<^verbatim>\<open>xs.map((x) => ({ x, s: score(x) })).sort((a, b) => b.s - a.s)[0]\<close>: the sort is
  stable and descending in the score; \<open>None\<close> is the \<^verbatim>\<open>undefined\<close> of an empty array.
\<close>

definition best_by :: "('a \<Rightarrow> int) \<Rightarrow> 'a list \<Rightarrow> 'a option" where
  "best_by score xs =
     (case sort_key (\<lambda>p. - snd p) (map (\<lambda>x. (x, score x)) xs) of
        [] \<Rightarrow> None
      | p # ps \<Rightarrow> Some (fst p))"

subsection \<open>UpstreamField\<close>

definition upstream_candidate :: "js \<Rightarrow> candidate" where
  "upstream_candidate upstream =
     \<lparr> url = upstream, provider = ''Bordeaux Metropole (met_agenda)'', page_url = [],
       author = [], license = [], credit = [], source_url = Some [],
       width = None, height = None \<rparr>"

subsection \<open>OfficialAgendaAPI\<close>

text \<open>The event of an OpenAgenda answer: the value \<^verbatim>\<open>data.event || data\<close>.\<close>

record oa_event =
  oa_image :: js
  oa_thumbnail :: js
  oa_originalImage :: js
  oa_location_image :: js
  oa_imageCredits :: "string option"
  oa_location_imageCredits :: "string option"
  oa_canonicalUrl :: "string option"
  oa_url :: "string option"

text \<open>An HTTP answer: \<^verbatim>\<open>res.ok\<close>, and what \<^verbatim>\<open>await res.json()\<close> gives or throws.\<close>

record oa_response =
  oa_ok :: bool
  oa_json :: "error + oa_event"

definition fetchOpenAgendaEvent :: "(error + oa_response) \<Rightarrow> error + oa_event option" where
  "fetchOpenAgendaEvent fetched =
     (case fetched of
        Inl e \<Rightarrow> Inl e
      | Inr res \<Rightarrow>
          if \<not> oa_ok res then Inr None
          else (case oa_json res of Inl e \<Rightarrow> Inl e | Inr ev \<Rightarrow> Inr (Some ev)))"

definition pickOAImage :: "oa_event \<Rightarrow> (js \<times> string) option" where
  "pickOAImage evt =
     (let u = js_or (oa_image evt) (js_or (oa_thumbnail evt)
                (js_or (oa_originalImage evt) (js_or (oa_location_image evt) (JStr []))));
          cr = str_or (oa_imageCredits evt) (str_or (oa_location_imageCredits evt) [])
      in if truthy u then Some (u, cr) else None)"

definition openagenda_candidate :: "oa_event \<Rightarrow> js \<times> string \<Rightarrow> candidate" where
  "openagenda_candidate oa oaImg =
     \<lparr> url = fst oaImg, provider = ''OpenAgenda'',
       page_url = str_or (oa_canonicalUrl oa) (str_or (oa_url oa) []),
       author = [], license = [], credit = snd oaImg,
       source_url = Some (str_or (oa_canonicalUrl oa) (str_or (oa_url oa) [])),
       width = None, height = None \<rparr>"

subsection \<open>OpenMediaSearch (Openverse)\<close>

text \<open>One result of the Openverse API; a tag is given by its name.\<close>

record ov_result =
  ov_title :: "string option"
  ov_creator :: "string option"
  ov_creator_name :: "string option"
  ov_tags :: "string list option"
  ov_provider :: "string option"
  ov_source :: "string option"
  ov_width :: "int option"
  ov_height :: "int option"
  ov_license :: "string option"
  ov_foreign_landing_url :: "string option"
  ov_url :: "string option"
  ov_thumbnail :: "string option"

definition scoreOpenverseResult :: "config \<Rightarrow> string list \<Rightarrow> ov_result \<Rightarrow> int" where
  "scoreOpenverseResult cfg evTokens r =
     (let ttl = str_or (ov_title r) [];
          creator = str_or (ov_creator r) (str_or (ov_creator_name r) []);
          tags = (case ov_tags r of Some ts \<Rightarrow> join_with '' '' ts | None \<Rightarrow> []);
          prov = toLowerCase (str_or (ov_provider r) (str_or (ov_source r) []));
          w = num_or0 (ov_width r);
          h = num_or0 (ov_height r)
      in overlapScore evTokens ttl * 3
         + overlapScore evTokens creator * 1
         + overlapScore evTokens tags * 1
         + (if w \<ge> 2000 \<or> h \<ge> 2000 then 4 else if w \<ge> MIN_WIDTH cfg then 2 else 0)
         + (if prov \<in> set (PREFERRED_OPENVERSE_PROVIDERS cfg) then 4 else 0)
         + (if creator \<noteq> [] then 1 else 0)
         + (if str_or (ov_license r) [] \<noteq> [] then 1 else 0)
         + (if str_or (ov_foreign_landing_url r) [] \<noteq> [] then 1 else 0))"

definition toMappingFromOpenverse :: "ov_result \<Rightarrow> candidate" where
  "toMappingFromOpenverse r =
     \<lparr> url = JStr (str_or (ov_url r) (str_or (ov_thumbnail r) [])),
       provider = str_or (ov_provider r) ''Openverse'',
       page_url = str_or (ov_foreign_landing_url r) [],
       author = str_or (ov_creator r) (str_or (ov_creator_name r) []),
       license = str_or (ov_license r) [],
       credit = join_with [CHR '' '', CHR 0xB7, CHR '' '']
                  (filter (\<lambda>p. p \<noteq> [])
                     [str_or (ov_creator r) (str_or (ov_creator_name r) []),
                      str_or (ov_license r) []]),
       source_url = Some (str_or (ov_source r) []),
       width = num_or_null (ov_width r),
       height = num_or_null (ov_height r) \<rparr>"

text \<open>The body of the Openverse \<^verbatim>\<open>try\<close> block once the search has answered.\<close>

definition openverse_pick :: "config \<Rightarrow> string list \<Rightarrow> ov_result list \<Rightarrow> candidate option" where
  "openverse_pick cfg evTokens results =
     (case best_by (scoreOpenverseResult cfg evTokens) results of
        None \<Rightarrow> None
      | Some r \<Rightarrow>
          (let mapped = toMappingFromOpenverse r;
               w = num_or0 (ov_width r)
           in if truthy (url mapped) \<and> (w \<ge> MIN_WIDTH cfg \<or> w = 0) then Some mapped
              else None))"

subsection \<open>EncyclopediaMediaSearch (Wikimedia Commons, first generation)\<close>

text \<open>\<^verbatim>\<open>s.replace(/<[^>]*>/g, " ")\<close>: a tag runs from a \<open><\<close> to the next \<open>>\<close>.\<close>

function strip_tags :: "string \<Rightarrow> string" where
  "strip_tags [] = []"
| "strip_tags (c # cs) =
     (if c = CHR ''<'' \<and> CHR ''>'' \<in> set cs
      then CHR '' '' # strip_tags (tl (dropWhile (\<lambda>d. d \<noteq> CHR ''>'') cs))
      else c # strip_tags cs)"
  by pat_completeness auto
termination
proof (relation "measure length")
  show "wf (measure length)" by simp
next
  fix c :: char and cs :: string
  have "length (tl (dropWhile (\<lambda>d. d \<noteq> CHR ''>'') cs)) \<le> length cs"
    using length_dropWhile_le [of "\<lambda>d. d \<noteq> CHR ''>''" cs] by simp
  then show "(tl (dropWhile (\<lambda>d. d \<noteq> CHR ''>'') cs), c # cs) \<in> measure length"
    by simp
next
  fix c :: char and cs :: string
  show "(cs, c # cs) \<in> measure length" by simp
qed

definition stripHtml :: "string \<Rightarrow> string" where
  "stripHtml s = trim (replace_runs js_space (strip_tags s))"

text \<open>
  \<^verbatim>\<open>encodeURIComponent\<close> on Latin-1: letters, digits and \<^verbatim>\<open>-_.!~*'()\<close> stay, every
  other character becomes the percent-escapes of its UTF-8 bytes.
\<close>

definition hex_digit :: "nat \<Rightarrow> char" where
  "hex_digit d = (if d < 10 then char_of (48 + d) else char_of (55 + d))"

definition percent_byte :: "nat \<Rightarrow> string" where
  "percent_byte b = [CHR ''%'', hex_digit (b div 16), hex_digit (b mod 16)]"

definition encodeURIComponent_char :: "char \<Rightarrow> string" where
  "encodeURIComponent_char c =
     (let n = (of_char c :: nat) in
      if (65 \<le> n \<and> n \<le> 90) \<or> (97 \<le> n \<and> n \<le> 122) \<or> (48 \<le> n \<and> n \<le> 57)
         \<or> c \<in> set ''-_.!~*()'' \<or> n = 39
      then [c]
      else if n < 128 then percent_byte n
      else percent_byte (192 + n div 64) @ percent_byte (128 + n mod 64))"

definition encodeURIComponent :: "string \<Rightarrow> string" where
  "encodeURIComponent s = concat (map encodeURIComponent_char s)"

text \<open>\<^verbatim>\<open>s.replace(/%3A/g, ":")\<close>.\<close>

fun unescape_colon :: "string \<Rightarrow> string" where
  "unescape_colon (a # b # c # cs) =
     (if a = CHR ''%'' \<and> b = CHR ''3'' \<and> c = CHR ''A'' then CHR '':'' # unescape_colon cs
      else a # unescape_colon (b # c # cs))"
| "unescape_colon cs = cs"

text \<open>The first \<^verbatim>\<open>imageinfo\<close> element of a Commons page, with its metadata values.\<close>

record cm_info =
  ci_thumburl :: "string option"
  ci_url :: "string option"
  ci_width :: "int option"
  ci_height :: "int option"
  ci_Artist :: "string option"
  ci_LicenseShortName :: "string option"
  ci_License :: "string option"

record cm_page =
  cm_title :: "string option"
  cm_imageinfo :: "cm_info option"

text \<open>\<^verbatim>\<open>page?.imageinfo?.[0] || {}\<close>.\<close>

definition cm_info_of :: "cm_page \<Rightarrow> cm_info" where
  "cm_info_of page =
     (case cm_imageinfo page of
        Some i \<Rightarrow> i
      | None \<Rightarrow> \<lparr> ci_thumburl = None, ci_url = None, ci_width = None, ci_height = None,
                  ci_Artist = None, ci_LicenseShortName = None, ci_License = None \<rparr>)"

definition scoreCommonsPage :: "config \<Rightarrow> string list \<Rightarrow> cm_page \<Rightarrow> int" where
  "scoreCommonsPage cfg evTokens page =
     (let ttl = str_or (cm_title page) [];
          info = cm_info_of page;
          artist = stripHtml (str_or (ci_Artist info) []);
          lic = stripHtml (str_or (ci_LicenseShortName info) []);
          w = num_or0 (ci_width info);
          h = num_or0 (ci_height info)
      in overlapScore evTokens ttl * 3
         + overlapScore evTokens artist * 1
         + (if lic \<noteq> [] then 2 else 0)
         + (if w \<ge> 2000 \<or> h \<ge> 2000 then 3 else if w \<ge> MIN_WIDTH cfg then 2 else 0))"

definition toMappingFromCommons :: "cm_page \<Rightarrow> candidate" where
  "toMappingFromCommons page =
     (let info = cm_info_of page;
          auth = stripHtml (str_or (ci_Artist info) []);
          lic = stripHtml (str_or (ci_LicenseShortName info) (str_or (ci_License info) []));
          pageTitle = str_or (cm_title page) [];
          commonsPageUrl =
            (if pageTitle \<noteq> []
             then ''https://commons.wikimedia.org/wiki/''
                    @ unescape_colon (encodeURIComponent pageTitle)
             else [])
      in \<lparr> url = JStr (str_or (ci_thumburl info) (str_or (ci_url info) [])),
           provider = ''Wikimedia Commons'',
           page_url = commonsPageUrl,
           author = auth,
           license = lic,
           credit = join_with [CHR '' '', CHR 0xB7, CHR '' '']
                      (filter (\<lambda>p. p \<noteq> []) [auth, lic]),
           source_url = None,
           width = num_or_null (ci_width info),
           height = num_or_null (ci_height info) \<rparr>)"

text \<open>The body of the Commons \<^verbatim>\<open>try\<close> block once the pages have been fetched.\<close>

definition commons_pick :: "config \<Rightarrow> string list \<Rightarrow> cm_page list \<Rightarrow> candidate option" where
  "commons_pick cfg evTokens pages =
     (case best_by (scoreCommonsPage cfg evTokens) pages of
        None \<Rightarrow> None
      | Some bestPage \<Rightarrow>
          (let mapped = toMappingFromCommons bestPage
           in if truthy (url mapped) then Some mapped else None))"

text \<open>
  The acceptance rule in the words of the specification: the url is non-empty, and the
  declared width is unknown or at least the configured minimum.
\<close>

definition spec_accepts :: "int \<Rightarrow> candidate \<Rightarrow> bool" where
  "spec_accepts minWidth c =
     (truthy (url c) \<and> (case width c of None \<Rightarrow> True | Some w \<Rightarrow> w \<ge> minWidth))"

section \<open>Selection Policy\<close>

text \<open>
  What the external services answer during one run. Each field is the outcome of one
  network-facing function of the script: a thrown exception (\<open>Inl\<close>) or its return value.
  \<open>library_image\<close> is the outcome of \<^verbatim>\<open>pickBordeauxLibraryImage(row)\<close>, whose body is
  HTTP fetches and HTML scraping; \<open>openverse_results\<close> that of \<^verbatim>\<open>openverseSearch(q)\<close>;
  \<open>commons_files\<close> the titles of the hits of \<^verbatim>\<open>commonsSearchFiles(q)\<close>; \<open>commons_pages\<close>
  the outcome of \<^verbatim>\<open>commonsFetchImageInfo(titles)\<close>.
\<close>

record world =
  fetch_openagenda :: "string \<Rightarrow> string \<Rightarrow> error + oa_response"
  library_image :: "event_row \<Rightarrow> error + candidate option"
  openverse_results :: "string \<Rightarrow> error + ov_result list"
  commons_files :: "string \<Rightarrow> error + string option list"
  commons_pages :: "string list \<Rightarrow> error + cm_page list"

datatype source =
    UpstreamField
  | OfficialAgendaAPI
  | VenueDirectoryScraper
  | OpenMediaSearch
  | EncyclopediaMediaSearch

definition row_uid :: "event_row \<Rightarrow> string" where
  "row_uid row = trim (str_or (uid row) [])"

definition row_slug :: "event_row \<Rightarrow> string" where
  "row_slug row = trim (str_or (slug row) [])"

definition row_agendaUID :: "event_row \<Rightarrow> string" where
  "row_agendaUID row = trim (str_or (originagenda_uid row) [])"

text \<open>The guard \<^verbatim>\<open>OFFICIAL_IMAGES && OPENAGENDA_KEY && agendaUID\<close>.\<close>

definition official_enabled :: "config \<Rightarrow> event_row \<Rightarrow> bool" where
  "official_enabled cfg row =
     (OFFICIAL_IMAGES cfg \<and> OPENAGENDA_KEY cfg \<noteq> [] \<and> row_agendaUID row \<noteq> [])"

text \<open>The OpenAgenda block: no \<^verbatim>\<open>try\<close> surrounds it, an exception leaves the function.\<close>

definition openagenda_step :: "world \<Rightarrow> event_row \<Rightarrow> error + candidate option" where
  "openagenda_step w row =
     (case fetchOpenAgendaEvent (fetch_openagenda w (row_agendaUID row) (row_uid row)) of
        Inl e \<Rightarrow> Inl e
      | Inr None \<Rightarrow> Inr None
      | Inr (Some oa) \<Rightarrow>
          (case pickOAImage oa of
             None \<Rightarrow> Inr None
           | Some oaImg \<Rightarrow>
               if truthy (fst oaImg) then Inr (Some (openagenda_candidate oa oaImg))
               else Inr None))"

text \<open>The library block: \<^verbatim>\<open>try { ... } catch (e) { /* ignore and continue */ }\<close>.\<close>

definition library_step :: "world \<Rightarrow> event_row \<Rightarrow> candidate option" where
  "library_step w row =
     (case library_image w row of
        Inl e \<Rightarrow> None
      | Inr None \<Rightarrow> None
      | Inr (Some libImg) \<Rightarrow> if truthy (url libImg) then Some libImg else None)"

text \<open>The Openverse block: \<^verbatim>\<open>try { ... } catch (e) { /* continue to fallback */ }\<close>.\<close>

definition openverse_step :: "config \<Rightarrow> world \<Rightarrow> string \<Rightarrow> string list \<Rightarrow> candidate option" where
  "openverse_step cfg w qtext evTokens =
     (case openverse_results w qtext of
        Inl e \<Rightarrow> None
      | Inr results \<Rightarrow> openverse_pick cfg evTokens results)"

text \<open>The Commons block of the first generation: \<^verbatim>\<open>try { ... } catch (e) { /* ignore */ }\<close>.\<close>

definition commons_step :: "config \<Rightarrow> world \<Rightarrow> string \<Rightarrow> string list \<Rightarrow> candidate option" where
  "commons_step cfg w qtext evTokens =
     (case commons_files w qtext of
        Inl e \<Rightarrow> None
      | Inr files \<Rightarrow>
          (let titles = take 6 (filter (\<lambda>t. t \<noteq> []) (map (\<lambda>x. str_or x []) files))
           in if length titles = 0 then None
              else (case commons_pages w titles of
                      Inl e \<Rightarrow> None
                    | Inr pages \<Rightarrow> commons_pick cfg evTokens pages)))"

text \<open>
  \<open>pickBestImageForEvent\<close> of the current generation. The first component is the list of
  sources tried, in the order they were tried; the second is the exception that left the
  function, or the value returned (\<open>None\<close> for \<^verbatim>\<open>null\<close>).
\<close>

definition pickBestImageForEvent ::
  "config \<Rightarrow> world \<Rightarrow> event_row \<Rightarrow> source list \<times> (error + candidate option)" where
  "pickBestImageForEvent cfg w row =
     (let qtext = buildSearchQuery row;
          evTokens = tokens qtext;
          upstream = bestImageUrlFromRow row
      in if truthy upstream then ([UpstreamField], Inr (Some (upstream_candidate upstream)))
         else
           (let t1 = [UpstreamField] @ (if official_enabled cfg row then [OfficialAgendaAPI] else []);
                r1 = (if official_enabled cfg row then openagenda_step w row else Inr None)
            in case r1 of
                 Inl e \<Rightarrow> (t1, Inl e)
               | Inr (Some c) \<Rightarrow> (t1, Inr (Some c))
               | Inr None \<Rightarrow>
                   (let t2 = t1 @ (if isBibliotheque row then [VenueDirectoryScraper] else []);
                        r2 = (if isBibliotheque row then library_step w row else None)
                    in case r2 of
                         Some libImg \<Rightarrow> (t2, Inr (Some libImg))
                       | None \<Rightarrow>
                           (case openverse_step cfg w qtext evTokens of
                              Some mapped \<Rightarrow> (t2 @ [OpenMediaSearch], Inr (Some mapped))
                            | None \<Rightarrow> (t2 @ [OpenMediaSearch], Inr None)))))"

text \<open>The first generation: OpenAgenda when enabled, Openverse, then Wikimedia Commons.\<close>

definition pickBestImageForEvent_v1 ::
  "config \<Rightarrow> world \<Rightarrow> event_row \<Rightarrow> source list \<times> (error + candidate option)" where
  "pickBestImageForEvent_v1 cfg w row =
     (let qtext = buildSearchQuery_v1 row;
          evTokens = tokens qtext;
          t1 = (if official_enabled cfg row then [OfficialAgendaAPI] else []);
          r1 = (if official_enabled cfg row then openagenda_step w row else Inr None)
      in case r1 of
           Inl e \<Rightarrow> (t1, Inl e)
         | Inr (Some c) \<Rightarrow> (t1, Inr (Some c))
         | Inr None \<Rightarrow>
             (case openverse_step cfg w qtext evTokens of
                Some mapped \<Rightarrow> (t1 @ [OpenMediaSearch], Inr (Some mapped))
              | None \<Rightarrow>
                  (t1 @ [OpenMediaSearch, EncyclopediaMediaSearch],
                   Inr (commons_step cfg w qtext evTokens))))"

subsection \<open>The policy in the words of the specification\<close>






text \<open>
  The traversal: the sources are tried in order and the first candidate is returned, with
  the list of the sources tried; \<open>None\<close> when no source yields one.
\<close>

fun spec_select ::
  "(source \<Rightarrow> candidate option) \<Rightarrow> source list \<Rightarrow> source list \<times> candidate option" where
  "spec_select y [] = ([], None)"
| "spec_select y (s # ss) =
     (case y s of
        Some c \<Rightarrow> ([s], Some c)
      | None \<Rightarrow> (s # fst (spec_select y ss), snd (spec_select y ss)))"

section \<open>Cache Merge and the per-event task\<close>

text \<open>An entry of the persisted store: the picked candidate, the query and a time stamp.\<close>

record cache_entry = candidate +
  q :: string
  updated_at :: string

definition make_entry :: "candidate \<Rightarrow> string \<Rightarrow> string \<Rightarrow> cache_entry" where
  "make_entry picked qtext now =
     \<lparr> url = url picked, provider = provider picked, page_url = page_url picked,
       author = author picked, license = license picked, credit = credit picked,
       source_url = source_url picked, width = width picked, height = height picked,
       q = qtext, updated_at = now \<rparr>"

text \<open>
  The store is a plain JavaScript object (\<^verbatim>\<open>JSON.parse\<close> of the file, or \<^verbatim>\<open>{}\<close>): it has
  its own properties, the entries, and a prototype. \<open>own_props\<close> are the own properties.
  \<open>proto_entry\<close> is \<open>None\<close> while the prototype is \<^verbatim>\<open>Object.prototype\<close> and \<open>Some e\<close> once an
  assignment to \<^verbatim>\<open>__proto__\<close> has made the entry \<open>e\<close> the prototype.
\<close>

record store =
  own_props :: "string \<Rightarrow> cache_entry option"
  proto_entry :: "cache_entry option"

text \<open>The property names of \<^verbatim>\<open>Object.prototype\<close>; all but \<^verbatim>\<open>__proto__\<close> hold functions.\<close>

definition object_prototype_names :: "string list" where
  "object_prototype_names =
     [''constructor'', ''__defineGetter__'', ''__defineSetter__'', ''hasOwnProperty'',
      ''__lookupGetter__'', ''__lookupSetter__'', ''isPrototypeOf'', ''propertyIsEnumerable'',
      ''toString'', ''valueOf'', ''__proto__'', ''toLocaleString'']"

text \<open>A property of an entry, as a value; \<open>None\<close> when the entry has no such property.\<close>

definition entry_prop :: "cache_entry \<Rightarrow> string \<Rightarrow> js option" where
  "entry_prop e k =
     (if k = ''url'' then Some (url e)
      else if k = ''provider'' then Some (JStr (provider e))
      else if k = ''page_url'' then Some (JStr (page_url e))
      else if k = ''author'' then Some (JStr (author e))
      else if k = ''license'' then Some (JStr (license e))
      else if k = ''credit'' then Some (JStr (credit e))
      else if k = ''source_url'' then map_option JStr (source_url e)
      else if k = ''width'' then Some (case width e of None \<Rightarrow> JNull | Some n \<Rightarrow> JNum n)
      else if k = ''height'' then Some (case height e of None \<Rightarrow> JNull | Some n \<Rightarrow> JNum n)
      else if k = ''q'' then Some (JStr (q e))
      else if k = ''updated_at'' then Some (JStr (updated_at e))
      else None)"

text \<open>
  What \<^verbatim>\<open>existing[k]\<close> reads: nothing, an entry, or a value found on the prototype chain
  (a function or the prototype itself, written as an object without properties, or a
  property of the entry that has become the prototype).
\<close>

datatype slot = Missing | Entry cache_entry | Inherited js

definition store_get :: "store \<Rightarrow> string \<Rightarrow> slot" where
  "store_get st k =
     (case own_props st k of
        Some e \<Rightarrow> Entry e
      | None \<Rightarrow>
          if k = ''__proto__''
          then (case proto_entry st of Some p \<Rightarrow> Entry p | None \<Rightarrow> Inherited (JObj []))
          else (case (case proto_entry st of Some p \<Rightarrow> entry_prop p k | None \<Rightarrow> None) of
                  Some v \<Rightarrow> Inherited v
                | None \<Rightarrow>
                    if k \<in> set object_prototype_names then Inherited (JObj []) else Missing))"

text \<open>\<^verbatim>\<open>!!existing[k]\<close> and \<^verbatim>\<open>existing[k]?.url\<close>.\<close>

fun slot_truthy :: "slot \<Rightarrow> bool" where
  "slot_truthy Missing = False"
| "slot_truthy (Entry e) = True"
| "slot_truthy (Inherited v) = truthy v"

fun slot_url :: "slot \<Rightarrow> js" where
  "slot_url Missing = JUndefined"
| "slot_url (Entry e) = url e"
| "slot_url (Inherited v) = get_prop v ''url''"

text \<open>
  \<^verbatim>\<open>existing[k] = entry\<close>: an own property is created or overwritten, except that
  \<^verbatim>\<open>__proto__\<close>, when it is not an own property, is the setter that replaces the prototype.
\<close>

definition store_set :: "store \<Rightarrow> string \<Rightarrow> cache_entry \<Rightarrow> store" where
  "store_set st k entry =
     (if k = ''__proto__'' \<and> own_props st k = None then st\<lparr>proto_entry := Some entry\<rparr>
      else st\<lparr>own_props := (own_props st)(k \<mapsto> entry)\<rparr>)"

text \<open>The guard \<^verbatim>\<open>uid && existing[uid]?.url\<close> ("Don't overwrite existing entries").\<close>

definition skip_existing :: "store \<Rightarrow> string \<Rightarrow> bool" where
  "skip_existing st uidv = (uidv \<noteq> [] \<and> truthy (slot_url (store_get st uidv)))"

text \<open>
  The two writes:
  \<^verbatim>\<open>if (uid) existing[uid] = entry; if (slug && !existing[slug]) existing[slug] = entry;\<close>
\<close>

definition write_entry :: "store \<Rightarrow> string \<Rightarrow> string \<Rightarrow> cache_entry \<Rightarrow> store" where
  "write_entry st uidv slugv entry =
     (let e1 = (if uidv \<noteq> [] then store_set st uidv entry else st);
          e2 = (if slugv \<noteq> [] \<and> \<not> slot_truthy (store_get e1 slugv)
                then store_set e1 slugv entry else e1)
      in e2)"

text \<open>
  The store a task leaves. The guard runs when the task starts and sees \<open>at_guard\<close>; the
  writes run after two \<^verbatim>\<open>await\<close>s and see \<open>at_write\<close>, which other tasks may have written
  in between; the guard is not run again. A task whose guard holds returns at once.
\<close>

definition merge_task :: "store \<Rightarrow> store \<Rightarrow> string \<Rightarrow> string \<Rightarrow> cache_entry \<Rightarrow> store" where
  "merge_task at_guard at_write uidv slugv entry =
     (if skip_existing at_guard uidv then at_guard
      else write_entry at_write uidv slugv entry)"

text \<open>The state the tasks of \<open>main\<close> share: the store and the two counters.\<close>

record run_state =
  existing :: store
  done_count :: int
  added_count :: int

text \<open>The start of the task \<open>main\<close> submits for one row, up to the call of the selection.\<close>

datatype guard = NoKeys | AlreadyStored | Proceed

definition task_guard :: "run_state \<Rightarrow> event_row \<Rightarrow> guard" where
  "task_guard st row =
     (let uidv = row_uid row; slugv = row_slug row
      in if uidv = [] \<and> slugv = [] then NoKeys
         else if skip_existing (existing st) uidv then AlreadyStored
         else Proceed)"

text \<open>
  The end of the task, after the selection and the delay, on the state as it is then.
\<close>

definition task_finish :: "string \<Rightarrow> run_state \<Rightarrow> event_row \<Rightarrow> candidate option \<Rightarrow> run_state" where
  "task_finish now st row picked =
     (case picked of
        None \<Rightarrow> st\<lparr>done_count := done_count st + 1\<rparr>
      | Some c \<Rightarrow>
          if truthy (url c)
          then st\<lparr>existing :=
                    write_entry (existing st) (row_uid row) (row_slug row)
                      (make_entry c (buildSearchQuery row) now),
                  added_count := added_count st + 1,
                  done_count := done_count st + 1\<rparr>
          else st\<lparr>done_count := done_count st + 1\<rparr>)"

text \<open>
  The whole task when no other task writes the state while it waits. The result is the
  list of sources queried and either the exception that rejects the task or the state the
  task leaves.
\<close>

definition process_row ::
  "config \<Rightarrow> world \<Rightarrow> string \<Rightarrow> run_state \<Rightarrow> event_row
     \<Rightarrow> source list \<times> (error + run_state)" where
  "process_row cfg w now st row =
     (case task_guard st row of
        NoKeys \<Rightarrow> ([], Inr st)
      | AlreadyStored \<Rightarrow> ([], Inr (st\<lparr>done_count := done_count st + 1\<rparr>))
      | Proceed \<Rightarrow>
          (case pickBestImageForEvent cfg w row of
             (tr, Inl e) \<Rightarrow> (tr, Inl e)
           | (tr, Inr picked) \<Rightarrow> (tr, Inr (task_finish now st row picked))))"

subsection \<open>The merge in the words of the specification\<close>

text \<open>
  "Skip entirely if store[id] already exists with a non-empty url. Otherwise set
  store[id] = entry; additionally set store[slug] = entry only if slug is non-empty and
  not already present."
\<close>

definition spec_verified :: "cache_entry option \<Rightarrow> bool" where
  "spec_verified x = (case x of None \<Rightarrow> False | Some e \<Rightarrow> truthy (url e))"

definition spec_mergeEntry ::
  "(string \<Rightarrow> cache_entry option) \<Rightarrow> string \<Rightarrow> string \<Rightarrow> cache_entry
     \<Rightarrow> (string \<Rightarrow> cache_entry option)" where
  "spec_mergeEntry m ident slugv entry =
     (if spec_verified (m ident) then m
      else if slugv \<noteq> [] \<and> (m(ident \<mapsto> entry)) slugv = None
      then m(ident \<mapsto> entry, slugv \<mapsto> entry)
      else m(ident \<mapsto> entry))"

text \<open>A key that names no property of \<^verbatim>\<open>Object.prototype\<close>.\<close>

definition plain_key :: "string \<Rightarrow> bool" where
  "plain_key k = (k \<notin> set object_prototype_names)"

section \<open>Concurrency Limiter\<close>

text \<open>
  The closure state of \<open>createLimiter(max)\<close>, \<open>active\<close> and \<open>queue\<close>, together with what
  the event loop holds and a record of what happened. A task is named by the number of its
  submission. \<open>running\<close> are the tasks whose \<^verbatim>\<open>fn()\<close> has been called and whose promise is
  pending; \<open>finishing\<close> are the tasks whose promise has settled and whose \<^verbatim>\<open>.finally\<close>
  callback has not run yet; \<open>started\<close> lists the calls of \<^verbatim>\<open>fn()\<close> in order; \<open>completed\<close>
  lists the settlements of the promises the limiter returned, \<open>True\<close> for resolved and
  \<open>False\<close> for rejected.
\<close>

record limiter =
  limit_max :: int
  active :: int
  queue :: "nat list"
  running :: "nat list"
  finishing :: "nat list"
  started :: "nat list"
  completed :: "(nat \<times> bool) list"
  submitted :: nat

definition createLimiter :: "int \<Rightarrow> limiter" where
  "createLimiter m =
     \<lparr> limit_max = m, active = 0, queue = [], running = [], finishing = [],
       started = [], completed = [], submitted = 0 \<rparr>"

text \<open>
  \<open>next\<close>: returns when \<^verbatim>\<open>active >= max || queue.length === 0\<close>; otherwise takes the head
  of the queue and calls its function. The tasks are \<^verbatim>\<open>async\<close> functions: the call
  returns a promise and never throws.
\<close>

definition next_task :: "limiter \<Rightarrow> limiter" where
  "next_task s =
     (if active s \<ge> limit_max s \<or> length (queue s) = 0 then s
      else (case queue s of
              [] \<Rightarrow> s
            | i # rest \<Rightarrow>
                s\<lparr>active := active s + 1, queue := rest,
                  running := running s @ [i], started := started s @ [i]\<rparr>))"

text \<open>The function the limiter returns: \<^verbatim>\<open>queue.push({ fn, resolve, reject }); next();\<close>\<close>

definition submit :: "limiter \<Rightarrow> limiter" where
  "submit s = next_task (s\<lparr>queue := queue s @ [submitted s], submitted := submitted s + 1\<rparr>)"

text \<open>
  The promise of a running task settles and \<^verbatim>\<open>.then(resolve, reject)\<close> hands the outcome
  to the promise the limiter returned.
\<close>

definition settle :: "nat \<Rightarrow> bool \<Rightarrow> limiter \<Rightarrow> limiter" where
  "settle i ok s =
     (if i \<in> set (running s)
      then s\<lparr>running := remove1 i (running s), finishing := finishing s @ [i],
             completed := completed s @ [(i, ok)]\<rparr>
      else s)"

text \<open>The \<^verbatim>\<open>.finally\<close> callback of a settled task: \<^verbatim>\<open>active -= 1; next();\<close>\<close>

definition finalize :: "nat \<Rightarrow> limiter \<Rightarrow> limiter" where
  "finalize i s =
     (if i \<in> set (finishing s)
      then next_task (s\<lparr>finishing := remove1 i (finishing s), active := active s - 1\<rparr>)
      else s)"

text \<open>
  One turn of the event loop: a submission, the settlement of a running task, or the
  \<^verbatim>\<open>.finally\<close> callback of a settled one. A settlement of a task that is not running and
  a callback of a task that has not settled cannot happen and leave the state as it is.
\<close>

datatype event = Submit | Settle nat bool | Finally nat

fun exec :: "event \<Rightarrow> limiter \<Rightarrow> limiter" where
  "exec Submit s = submit s"
| "exec (Settle i ok) s = settle i ok s"
| "exec (Finally i) s = finalize i s"

definition run :: "event list \<Rightarrow> limiter \<Rightarrow> limiter" where
  "run evs s = fold exec evs s"

text \<open>
  Letting everything in flight finish, every task failing: pending \<^verbatim>\<open>.finally\<close> callbacks
  run first, then the oldest running task rejects.
\<close>

function drain :: "limiter \<Rightarrow> limiter" where
  "drain s =
     (case finishing s of
        i # rest \<Rightarrow> drain (exec (Finally i) s)
      | [] \<Rightarrow> (case running s of
                 i # rest \<Rightarrow> drain (exec (Settle i False) s)
               | [] \<Rightarrow> s))"
  by pat_completeness auto
termination
proof (relation "measure (\<lambda>s. 2 * length (queue s) + 2 * length (running s) + length (finishing s))")
  show "wf (measure (\<lambda>s. 2 * length (queue s) + 2 * length (running s) + length (finishing s)))"
    by simp
next
  fix s :: limiter and i rest
  assume "finishing s = i # rest"
  then show "(exec (Finally i) s, s)
      \<in> measure (\<lambda>s. 2 * length (queue s) + 2 * length (running s) + length (finishing s))"
    by (auto simp: finalize_def next_task_def split: list.splits)
next
  fix s :: limiter and i rest
  assume "finishing s = []" "running s = i # rest"
  then show "(exec (Settle i False) s, s)
      \<in> measure (\<lambda>s. 2 * length (queue s) + 2 * length (running s) + length (finishing s))"
    by (auto simp: settle_def)
qed

text \<open>The invariant of the limiter for a bound \<open>n\<close>, and the one for the bound 0.\<close>

definition limiter_inv :: "int \<Rightarrow> limiter \<Rightarrow> bool" where
  "limiter_inv n s =
     (limit_max s = n
      \<and> active s = int (length (running s)) + int (length (finishing s))
      \<and> active s \<le> n
      \<and> started s @ queue s = [0..<submitted s]
      \<and> (queue s = [] \<or> active s = n)
      \<and> mset (started s) = mset (running s) + mset (map fst (completed s)))"

definition zero_inv :: "limiter \<Rightarrow> bool" where
  "zero_inv s =
     (limit_max s = 0 \<and> active s = 0 \<and> started s = [] \<and> running s = [] \<and> finishing s = []
      \<and> completed s = [] \<and> queue s = [0..<submitted s])"

declare drain.simps [simp del]

section \<open>Examples\<close>

text \<open>Concrete configurations, answers of the services and records, used to evaluate the
  definitions at explicit inputs.\<close>

definition example_cfg :: config where
  "example_cfg = \<lparr> OFFICIAL_IMAGES = True, OPENAGENDA_KEY = ''key'', MIN_WIDTH = 600,
     PREFERRED_OPENVERSE_PROVIDERS = [''stocksnap'', ''unsplash'', ''pexels''] \<rparr>"

definition down_world :: world where
  "down_world = \<lparr> fetch_openagenda = (\<lambda>a e. Inl NetworkError),
     library_image = (\<lambda>r. Inl NetworkError),
     openverse_results = (\<lambda>t. Inl NetworkError),
     commons_files = (\<lambda>t. Inl NetworkError),
     commons_pages = (\<lambda>ts. Inl NetworkError) \<rparr>"


definition narrow_page :: cm_page where
  "narrow_page = \<lparr> cm_title = Some ''File:Bordeaux.jpg'',
     cm_imageinfo = Some \<lparr> ci_thumburl = None, ci_url = Some ''https://upload.wikimedia.org/b.jpg'',
       ci_width = Some 400, ci_height = Some 300, ci_Artist = None,
       ci_LicenseShortName = Some ''CC BY-SA 4.0'', ci_License = None \<rparr> \<rparr>"

definition plain_page :: cm_page where
  "plain_page = \<lparr> cm_title = Some ''File:Garonne.jpg'',
     cm_imageinfo = Some \<lparr> ci_thumburl = None, ci_url = Some ''https://upload.wikimedia.org/g.jpg'',
       ci_width = Some 3000, ci_height = Some 2000, ci_Artist = None,
       ci_LicenseShortName = None, ci_License = None \<rparr> \<rparr>"

definition commons_world :: world where
  "commons_world = \<lparr> fetch_openagenda = (\<lambda>a e. Inl NetworkError),
     library_image = (\<lambda>r. Inr None),
     openverse_results = (\<lambda>t. Inr []),
     commons_files = (\<lambda>t. Inr [Some ''File:Bordeaux.jpg'']),
     commons_pages = (\<lambda>ts. Inr [narrow_page]) \<rparr>"

definition example_result :: "int option \<Rightarrow> ov_result" where
  "example_result w = \<lparr> ov_title = Some ''Bordeaux'', ov_creator = None, ov_creator_name = None,
     ov_tags = None, ov_provider = Some ''flickr'', ov_source = None, ov_width = w,
     ov_height = None, ov_license = Some ''by'', ov_foreign_landing_url = None,
     ov_url = Some ''https://example.org/a.jpg'', ov_thumbnail = None \<rparr>"


definition example_entry :: cache_entry where
  "example_entry = make_entry (upstream_candidate (JStr ''https://example.org/a.jpg''))
     ''Concert Bordeaux France'' ''2024-01-01T00:00:00.000Z''"

definition other_entry :: cache_entry where
  "other_entry = make_entry (upstream_candidate (JStr ''https://example.org/b.jpg''))
     ''Concert Bordeaux France'' ''2024-01-02T00:00:00.000Z''"

definition empty_store :: store where
  "empty_store = \<lparr> own_props = Map.empty, proto_entry = None \<rparr>"

definition empty_state :: run_state where
  "empty_state = \<lparr> existing = empty_store, done_count = 0, added_count = 0 \<rparr>"

section \<open>Properties\<close>

lemma trim_Nil: "trim [] = []"
  by (simp add: trim_def)

lemma trim_eq_Nil_iff: "trim s = [] \<longleftrightarrow> (\<forall>c \<in> set s. js_space c)"
proof
  assume "trim s = []"
  then have "dropWhile js_space (rev (dropWhile js_space s)) = []"
    by (simp add: trim_def)
  then have "\<forall>c \<in> set (dropWhile js_space s). js_space c"
    by (simp add: dropWhile_eq_Nil_conv)
  moreover have "\<forall>c \<in> set (takeWhile js_space s). js_space c"
    by (auto dest: set_takeWhileD)
  moreover have "set s = set (takeWhile js_space s) \<union> set (dropWhile js_space s)"
    by (metis set_append takeWhile_dropWhile_id)
  ultimately show "\<forall>c \<in> set s. js_space c"
    by blast
next
  assume "\<forall>c \<in> set s. js_space c"
  then have "dropWhile js_space s = []"
    by (simp add: dropWhile_eq_Nil_conv)
  then have "rev (dropWhile js_space (rev (dropWhile js_space s))) = []"
    by (simp only: rev.simps dropWhile.simps)
  then show "trim s = []"
    by (simp only: trim_def)
qed

text \<open>
  C8. \<open>isMissingImage\<close> is true when the image field is absent or null, a string that is
  empty or white space only, an empty array, or an object whose \<open>url\<close> and \<open>href\<close> are
  both missing or empty; it is false for a string with a character that is not white
  space, for a non-empty array (so for one whose first element carries a url), and for an
  object with a non-empty \<open>url\<close>.
\<close>

lemma isMissingImage_absent:
  "location_image row = JUndefined \<or> location_image row = JNull \<Longrightarrow> isMissingImage row"
  by (auto simp: isMissingImage_def)

lemma isMissingImage_string:
  "location_image row = JStr s \<Longrightarrow> isMissingImage row \<longleftrightarrow> (\<forall>c \<in> set s. js_space c)"
  by (simp add: isMissingImage_def trim_eq_Nil_iff)

lemma isMissingImage_array:
  "location_image row = JArr xs \<Longrightarrow> isMissingImage row \<longleftrightarrow> xs = []"
  by (simp add: isMissingImage_def)

lemma isMissingImage_object:
  "location_image row = JObj kvs \<Longrightarrow>
   isMissingImage row \<longleftrightarrow>
     \<not> truthy (get_prop (JObj kvs) ''url'') \<and> \<not> truthy (get_prop (JObj kvs) ''href'')"
  by (simp add: isMissingImage_def js_or_def del: get_prop.simps)

theorem isMissingImage_shapes:
  "(location_image row = JUndefined \<or> location_image row = JNull \<longrightarrow> isMissingImage row)
   \<and> (location_image row = JStr s \<and> (\<forall>c \<in> set s. js_space c) \<longrightarrow> isMissingImage row)
   \<and> (location_image row = JArr [] \<longrightarrow> isMissingImage row)
   \<and> (location_image row = JObj kvs
        \<and> \<not> truthy (get_prop (JObj kvs) ''url'') \<and> \<not> truthy (get_prop (JObj kvs) ''href'')
        \<longrightarrow> isMissingImage row)
   \<and> (location_image row = JStr s \<and> (\<exists>c \<in> set s. \<not> js_space c) \<longrightarrow> \<not> isMissingImage row)
   \<and> (location_image row = JArr (x # xs) \<longrightarrow> \<not> isMissingImage row)
   \<and> (location_image row = JObj kvs \<and> truthy (get_prop (JObj kvs) ''url'')
        \<longrightarrow> \<not> isMissingImage row)"
proof (intro conjI impI)
  assume "location_image row = JUndefined \<or> location_image row = JNull"
  then show "isMissingImage row" by (rule isMissingImage_absent)
next
  assume "location_image row = JStr s \<and> (\<forall>c \<in> set s. js_space c)"
  then show "isMissingImage row" by (simp add: isMissingImage_string)
next
  assume "location_image row = JArr []"
  then show "isMissingImage row" by (simp add: isMissingImage_array)
next
  assume "location_image row = JObj kvs
    \<and> \<not> truthy (get_prop (JObj kvs) ''url'') \<and> \<not> truthy (get_prop (JObj kvs) ''href'')"
  then show "isMissingImage row" using isMissingImage_object [of row kvs] by blast
next
  assume "location_image row = JStr s \<and> (\<exists>c \<in> set s. \<not> js_space c)"
  then show "\<not> isMissingImage row" by (simp add: isMissingImage_string)
next
  assume "location_image row = JArr (x # xs)"
  then show "\<not> isMissingImage row" by (simp add: isMissingImage_array)
next
  assume "location_image row = JObj kvs \<and> truthy (get_prop (JObj kvs) ''url'')"
  then show "\<not> isMissingImage row" using isMissingImage_object [of row kvs] by blast
qed

theorem isMissingImage_shapes_witness:
  "isMissingImage (blank_row\<lparr>location_image := JNull\<rparr>)
   \<and> isMissingImage (blank_row\<lparr>location_image := JStr []\<rparr>)
   \<and> isMissingImage (blank_row\<lparr>location_image := JStr ''  ''\<rparr>)
   \<and> isMissingImage (blank_row\<lparr>location_image := JArr []\<rparr>)
   \<and> isMissingImage (blank_row\<lparr>location_image := JObj []\<rparr>)
   \<and> \<not> isMissingImage (blank_row\<lparr>location_image := JStr ''http://x''\<rparr>)
   \<and> \<not> isMissingImage (blank_row\<lparr>location_image := JArr [JObj [(''url'', JStr ''http://x'')]]\<rparr>)
   \<and> \<not> isMissingImage (blank_row\<lparr>location_image := JObj [(''url'', JStr ''http://x'')]\<rparr>)"
  using isMissingImage_shapes [of "blank_row\<lparr>location_image := JNull\<rparr>" "[]" "[]" JNull "[]"]
    isMissingImage_shapes [of "blank_row\<lparr>location_image := JStr []\<rparr>" "[]" "[]" JNull "[]"]
    isMissingImage_shapes [of "blank_row\<lparr>location_image := JStr ''  ''\<rparr>" "''  ''" "[]" JNull "[]"]
    isMissingImage_shapes [of "blank_row\<lparr>location_image := JArr []\<rparr>" "[]" "[]" JNull "[]"]
    isMissingImage_shapes [of "blank_row\<lparr>location_image := JObj []\<rparr>" "[]" "[]" JNull "[]"]
    isMissingImage_shapes [of "blank_row\<lparr>location_image := JStr ''http://x''\<rparr>" "''http://x''" "[]" JNull "[]"]
    isMissingImage_shapes [of "blank_row\<lparr>location_image := JArr [JObj [(''url'', JStr ''http://x'')]]\<rparr>"
      "[]" "[]" "JObj [(''url'', JStr ''http://x'')]" "[]"]
    isMissingImage_shapes [of "blank_row\<lparr>location_image := JObj [(''url'', JStr ''http://x'')]\<rparr>"
      "[]" "[(''url'', JStr ''http://x'')]" JNull "[]"]
  by (simp add: js_space_def)

subsection \<open>Token overlap\<close>

lemma fold_overlap:
  "fold (\<lambda>t score. if t \<in> b then score + 1 else score) qs (n::int)
     = n + int (length (filter (\<lambda>t. t \<in> b) qs))"
  by (induction qs arbitrary: n) simp_all

lemma overlapScore_count:
  "overlapScore qs text = int (length (filter (\<lambda>t. t \<in> set (tokens text)) qs))"
  by (simp add: overlapScore_def fold_overlap)

lemma overlapScore_distinct:
  assumes "distinct qs"
  shows "overlapScore qs text = int (card (set qs \<inter> set (tokens text)))"
proof -
  have "distinct (filter (\<lambda>t. t \<in> set (tokens text)) qs)"
    using assms by simp
  then have "length (filter (\<lambda>t. t \<in> set (tokens text)) qs)
      = card (set (filter (\<lambda>t. t \<in> set (tokens text)) qs))"
    by (rule distinct_card [symmetric])
  moreover have "set (filter (\<lambda>t. t \<in> set (tokens text)) qs) = set qs \<inter> set (tokens text)"
    by auto
  ultimately show ?thesis
    by (simp add: overlapScore_count)
qed

lemma overlapScore_mset:
  assumes "mset qs = mset qs'"
  shows "overlapScore qs text = overlapScore qs' text"
proof -
  have "mset (filter (\<lambda>t. t \<in> set (tokens text)) qs) = mset (filter (\<lambda>t. t \<in> set (tokens text)) qs')"
    using assms by simp
  then have "length (filter (\<lambda>t. t \<in> set (tokens text)) qs) = length (filter (\<lambda>t. t \<in> set (tokens text)) qs')"
    by (rule mset_eq_length)
  then show ?thesis
    by (simp add: overlapScore_count)
qed

lemma overlapScore_disjoint:
  assumes "set qs \<inter> set (tokens text) = {}"
  shows "overlapScore qs text = 0"
proof -
  have "filter (\<lambda>t. t \<in> set (tokens text)) qs = []"
    using assms by (auto simp: filter_empty_conv)
  then show ?thesis
    by (simp add: overlapScore_count)
qed

text \<open>
  C6 (amended). \<open>overlapScore\<close> is the number of elements of the query-token list,
  counted with their multiplicity, that are in the token set of the candidate text. It does
  not depend on the order of the query tokens, it is not weighted by how often a token
  occurs in the candidate text, it is the cardinality of the intersection of the two token
  sets when the query tokens are pairwise distinct, and it is 0 when the two token sets
  are disjoint.
\<close>

theorem overlapScore_counts_query_occurrences:
  "overlapScore qs text = int (length (filter (\<lambda>t. t \<in> set (tokens text)) qs))
   \<and> (distinct qs \<longrightarrow> overlapScore qs text = int (card (set qs \<inter> set (tokens text))))
   \<and> (mset qs = mset qs' \<longrightarrow> overlapScore qs text = overlapScore qs' text)
   \<and> (set qs \<inter> set (tokens text) = {} \<longrightarrow> overlapScore qs text = 0)"
  using overlapScore_count overlapScore_distinct overlapScore_mset overlapScore_disjoint
  by blast

lemma tokens_Bordeaux: "tokens ''Bordeaux'' = [''bordeaux'']"
  by code_simp

lemma tokens_Concert: "tokens ''Concert'' = [''concert'']"
  by code_simp

theorem overlapScore_counts_query_occurrences_witness:
  "overlapScore [''bordeaux'', ''france''] ''Bordeaux'' = 1
   \<and> overlapScore [''france'', ''bordeaux''] ''Bordeaux'' = 1
   \<and> overlapScore [''bordeaux'', ''bordeaux''] ''Bordeaux'' = 2
   \<and> overlapScore [''bordeaux'', ''france''] ''Concert'' = 0"
  using overlapScore_counts_query_occurrences [of "[''bordeaux'', ''france'']" "''Bordeaux''" "[''france'', ''bordeaux'']"]
    overlapScore_counts_query_occurrences [of "[''bordeaux'', ''bordeaux'']" "''Bordeaux''" "[]"]
    overlapScore_counts_query_occurrences [of "[''bordeaux'', ''france'']" "''Concert''" "[]"]
  by (simp add: tokens_Bordeaux tokens_Concert)

text \<open>
  With a query token that occurs twice (as in a query that names Bordeaux both as venue
  and as city) the score is 2 while the two token sets share one element.
\<close>

theorem overlapScore_intersection_counterexample:
  "overlapScore [''bordeaux'', ''bordeaux''] ''Bordeaux''
     \<noteq> int (card (set [''bordeaux'', ''bordeaux''] \<inter> set (tokens ''Bordeaux'')))"
  by (simp add: overlapScore_count tokens_Bordeaux)

subsection \<open>Query Builder\<close>

lemma join_sp_snoc2: "join_sp (xs @ [a, b]) = join_sp (xs @ [a]) @ '' '' @ b"
  by (induction xs rule: join_sp.induct) simp_all

lemma row_city_nonempty: "row_city row \<noteq> []"
  by (simp add: row_city_def str_or_def split: option.splits)

lemma join_sp_Cons: "join_sp (p # ps) = p @ concat (map (\<lambda>x. CHR '' '' # x) ps)"
  by (induction ps arbitrary: p) simp_all

lemma spec_join_eq: "spec_join parts = join_sp (filter (\<lambda>p. p \<noteq> []) parts)"
  by (simp add: spec_join_def join_sp_Cons split: list.splits)

lemma str_or_text: "str_or f d = (if spec_text f \<noteq> [] then spec_text f else d)"
  by (simp add: str_or_def spec_text_def split: option.splits)

lemma row_place_first:
  "row_place row = spec_first [location_name row, location row, location_title row]"
  by (simp add: row_place_def str_or_text)

lemma row_title_first: "row_title row = spec_first [title_fr row, title row, title_en row]"
  by (simp add: row_title_def str_or_text)

lemma row_city_first:
  "row_city row = spec_first [location_city row, city row, Some ''Bordeaux'']"
  by (simp add: row_city_def str_or_text spec_text_def)

lemma row_address_text: "row_address row = spec_text (location_address row)"
  by (simp add: row_address_def str_or_text)

lemma row_district_text: "row_district row = spec_text (location_district row)"
  by (simp add: row_district_def str_or_text)

lemma buildSearchQuery_venue:
  "row_place row \<noteq> [] \<Longrightarrow>
   buildSearchQuery row =
     join_sp (filter (\<lambda>p. p \<noteq> [])
       [row_place row, row_address row, row_district row, row_city row, ''France''])"
  by (simp add: buildSearchQuery_def Let_def)

lemma buildSearchQuery_title:
  "row_place row = [] \<Longrightarrow>
   buildSearchQuery row =
     join_sp (filter (\<lambda>p. p \<noteq> []) [row_title row, row_city row, ''France''])"
  by (simp add: buildSearchQuery_def Let_def)

lemma buildSearchQuery_suffix: "suffix '' France'' (buildSearchQuery row)"
proof -
  have "\<exists>xs. buildSearchQuery row = join_sp (xs @ [row_city row, ''France''])"
  proof (cases "row_place row = []")
    case True
    have "filter (\<lambda>p. p \<noteq> []) [row_title row, row_city row, ''France'']
        = filter (\<lambda>p. p \<noteq> []) [row_title row] @ [row_city row, ''France'']"
      using row_city_nonempty [of row] by simp
    then show ?thesis
      using True buildSearchQuery_title [of row] by metis
  next
    case False
    have "filter (\<lambda>p. p \<noteq> [])
          [row_place row, row_address row, row_district row, row_city row, ''France'']
        = filter (\<lambda>p. p \<noteq> []) [row_place row, row_address row, row_district row]
          @ [row_city row, ''France'']"
      using row_city_nonempty [of row] by simp
    then show ?thesis
      using False buildSearchQuery_venue [of row] by metis
  qed
  then obtain xs where "buildSearchQuery row = join_sp (xs @ [row_city row, ''France''])" ..
  then have "buildSearchQuery row = join_sp (xs @ [row_city row]) @ '' France''"
    by (simp add: join_sp_snoc2)
  then show ?thesis
    by (simp add: suffix_def)
qed

lemma buildSearchQuery_spec_venue:
  assumes "spec_first [location_name row, location row, location_title row] \<noteq> []"
  shows "buildSearchQuery row =
     spec_join [spec_first [location_name row, location row, location_title row],
                spec_text (location_address row), spec_text (location_district row),
                spec_first [location_city row, city row, Some ''Bordeaux''], ''France'']"
proof -
  have "row_place row \<noteq> []"
    using assms by (simp add: row_place_first)
  then have "buildSearchQuery row =
     join_sp (filter (\<lambda>p. p \<noteq> [])
       [row_place row, row_address row, row_district row, row_city row, ''France''])"
    by (rule buildSearchQuery_venue)
  then show ?thesis
    by (simp only: spec_join_eq row_place_first row_address_text row_district_text row_city_first)
qed

lemma buildSearchQuery_spec_title:
  assumes "spec_first [location_name row, location row, location_title row] = []"
  shows "buildSearchQuery row =
     spec_join [spec_first [title_fr row, title row, title_en row],
                spec_first [location_city row, city row, Some ''Bordeaux''], ''France'']"
proof -
  have "row_place row = []"
    using assms by (simp add: row_place_first)
  then have "buildSearchQuery row =
     join_sp (filter (\<lambda>p. p \<noteq> []) [row_title row, row_city row, ''France''])"
    by (rule buildSearchQuery_title)
  then show ?thesis
    by (simp only: spec_join_eq row_title_first row_city_first)
qed

text \<open>
  C7 (amended). The venue is the first non-empty of the fields \<open>location_name\<close>,
  \<open>location\<close> and \<open>location_title\<close>; the city is the first non-empty of
  \<open>location_city\<close> and \<open>city\<close>, and "Bordeaux" when the record has neither; the
  title is the first non-empty of \<open>title_fr\<close>, \<open>title\<close> and \<open>title_en\<close>. When
  the record has a venue, the query is the space-join of the non-empty parts of venue,
  address, district, city and "France"; when it has none, the query is the space-join of
  the non-empty parts of title, city and "France". In both cases the query ends with the
  word "France".
\<close>

theorem buildSearchQuery_policy:
  "(spec_first [location_name row, location row, location_title row] \<noteq> [] \<longrightarrow>
      buildSearchQuery row =
        spec_join [spec_first [location_name row, location row, location_title row],
                   spec_text (location_address row), spec_text (location_district row),
                   spec_first [location_city row, city row, Some ''Bordeaux''], ''France''])
   \<and> (spec_first [location_name row, location row, location_title row] = [] \<longrightarrow>
      buildSearchQuery row =
        spec_join [spec_first [title_fr row, title row, title_en row],
                   spec_first [location_city row, city row, Some ''Bordeaux''], ''France''])
   \<and> suffix '' France'' (buildSearchQuery row)"
  using buildSearchQuery_spec_venue buildSearchQuery_spec_title buildSearchQuery_suffix by blast

theorem buildSearchQuery_policy_witness:
  "buildSearchQuery (blank_row\<lparr>location_name := Some ''Le Rocher'',
       location_address := Some ''1 rue Aristide Briand'', location_district := Some ''Palmer'',
       location_city := Some ''Cenon'', title := Some ''Concert''\<rparr>)
     = ''Le Rocher 1 rue Aristide Briand Palmer Cenon France''
   \<and> buildSearchQuery (blank_row\<lparr>location_name := Some [], location_title := Some ''Le Rocher'',
       location_address := Some [], city := Some ''Cenon''\<rparr>)
     = ''Le Rocher Cenon France''
   \<and> buildSearchQuery (blank_row\<lparr>location_name := Some ''Le Rocher''\<rparr>)
     = ''Le Rocher Bordeaux France''
   \<and> buildSearchQuery (blank_row\<lparr>title := Some ''Concert'', location_city := Some ''Cenon''\<rparr>)
     = ''Concert Cenon France''
   \<and> buildSearchQuery (blank_row\<lparr>title_en := Some ''Concert''\<rparr>) = ''Concert Bordeaux France''"
  using buildSearchQuery_policy [of "blank_row\<lparr>location_name := Some ''Le Rocher'',
       location_address := Some ''1 rue Aristide Briand'', location_district := Some ''Palmer'',
       location_city := Some ''Cenon'', title := Some ''Concert''\<rparr>"]
    buildSearchQuery_policy [of "blank_row\<lparr>location_name := Some [],
       location_title := Some ''Le Rocher'', location_address := Some [], city := Some ''Cenon''\<rparr>"]
    buildSearchQuery_policy [of "blank_row\<lparr>location_name := Some ''Le Rocher''\<rparr>"]
    buildSearchQuery_policy [of "blank_row\<lparr>title := Some ''Concert'', location_city := Some ''Cenon''\<rparr>"]
    buildSearchQuery_policy [of "blank_row\<lparr>title_en := Some ''Concert''\<rparr>"]
  by (simp add: blank_row_def spec_text_def spec_join_def)

text \<open>
  A record with a venue and no city: the query is not the join of the record's own parts
  and "France", it has the default city in between.
\<close>

theorem buildSearchQuery_default_city_counterexample:
  "buildSearchQuery (blank_row\<lparr>location_name := Some ''Le Rocher''\<rparr>)
     \<noteq> spec_join [spec_first [location_name (blank_row\<lparr>location_name := Some ''Le Rocher''\<rparr>),
                               location (blank_row\<lparr>location_name := Some ''Le Rocher''\<rparr>),
                               location_title (blank_row\<lparr>location_name := Some ''Le Rocher''\<rparr>)],
                   spec_text (location_address (blank_row\<lparr>location_name := Some ''Le Rocher''\<rparr>)),
                   spec_text (location_district (blank_row\<lparr>location_name := Some ''Le Rocher''\<rparr>)),
                   spec_first [location_city (blank_row\<lparr>location_name := Some ''Le Rocher''\<rparr>),
                               city (blank_row\<lparr>location_name := Some ''Le Rocher''\<rparr>)],
                   ''France'']"
proof -
  have "buildSearchQuery (blank_row\<lparr>location_name := Some ''Le Rocher''\<rparr>)
      = ''Le Rocher Bordeaux France''"
    by (simp add: buildSearchQuery_def blank_row_def row_place_def row_address_def
        row_district_def row_city_def str_or_def Let_def)
  then show ?thesis
    by (simp add: blank_row_def spec_text_def spec_join_def)
qed

subsection \<open>Selection Policy\<close>

lemma trim_A1: "trim ''A1'' = ''A1''"
  by (simp add: trim_def js_space_def)



lemma spec_select_prefix: "prefix (fst (spec_select y ss)) ss"
  by (induction ss) (auto split: option.splits)













lemma trim_E1: "trim ''E1'' = ''E1''"
  by (simp add: trim_def js_space_def)





text \<open>
  C3. The claim fails for the official agenda API. With the official source enabled, a
  row that carries an agenda id and no image, and a \<^verbatim>\<open>fetch\<close> to OpenAgenda that throws,
  \<open>pickBestImageForEvent\<close> ends with that exception after two sources, without trying
  the remaining ones, and the task of the row is rejected with it.
\<close>

theorem openagenda_failure_propagates:
  "pickBestImageForEvent example_cfg down_world
      (blank_row\<lparr>uid := Some ''E1'', originagenda_uid := Some ''A1''\<rparr>)
     = ([UpstreamField, OfficialAgendaAPI], Inl NetworkError)
   \<and> process_row example_cfg down_world ''2024-01-01T00:00:00.000Z'' empty_state
      (blank_row\<lparr>uid := Some ''E1'', originagenda_uid := Some ''A1''\<rparr>)
     = ([UpstreamField, OfficialAgendaAPI], Inl NetworkError)"
proof -
  let ?row = "blank_row\<lparr>uid := Some ''E1'', originagenda_uid := Some ''A1''\<rparr>"
  have en: "official_enabled example_cfg ?row"
    by (simp add: official_enabled_def example_cfg_def row_agendaUID_def blank_row_def
        str_or_def trim_A1)
  have up: "\<not> truthy (bestImageUrlFromRow ?row)"
    by (simp add: bestImageUrlFromRow_def blank_row_def)
  have oa: "openagenda_step down_world ?row = Inl NetworkError"
    by (simp add: openagenda_step_def down_world_def fetchOpenAgendaEvent_def)
  have pick: "pickBestImageForEvent example_cfg down_world ?row
      = ([UpstreamField, OfficialAgendaAPI], Inl NetworkError)"
    using en up oa by (simp add: pickBestImageForEvent_def Let_def)
  have uidv: "row_uid ?row = ''E1''"
    by (simp add: row_uid_def blank_row_def str_or_def trim_def js_space_def)
  have "\<not> skip_existing (existing empty_state) ''E1''"
    by (simp add: skip_existing_def empty_state_def empty_store_def store_get_def
        object_prototype_names_def)
  then have "task_guard empty_state ?row = Proceed"
    using uidv by (simp add: task_guard_def Let_def)
  then have "process_row example_cfg down_world ''2024-01-01T00:00:00.000Z'' empty_state ?row
      = ([UpstreamField, OfficialAgendaAPI], Inl NetworkError)"
    using pick by (simp add: process_row_def)
  with pick show ?thesis by simp
qed

text \<open>
  The other two network sources are wrapped in \<^verbatim>\<open>try\<close>/\<^verbatim>\<open>catch\<close>: when the official
  source is not tried, no answer of the services makes the function throw.
\<close>

lemma caught_failures:
  "\<not> official_enabled cfg row \<Longrightarrow> \<exists>r. snd (pickBestImageForEvent cfg w row) = Inr r"
  by (simp add: pickBestImageForEvent_def Let_def split: option.splits)

subsection \<open>Acceptance of search results\<close>

lemma tokens_Nil: "tokens [] = []"
  by code_simp

lemma best_by_Nil: "best_by f [] = None"
  by (simp add: best_by_def)

lemma best_by_Cons:
  "best_by f (a # rest) =
     (case best_by f rest of
        None \<Rightarrow> Some a
      | Some x \<Rightarrow> if f x \<le> f a then Some a else Some x)"
proof (cases "sort_key (\<lambda>p. - snd p) (map (\<lambda>x. (x, f x)) rest)")
  case Nil
  then show ?thesis
    by (simp add: best_by_def)
next
  case (Cons p ps)
  have "p \<in> set (sort_key (\<lambda>p. - snd p) (map (\<lambda>x. (x, f x)) rest))"
    by (simp add: Cons)
  then have "p \<in> set (map (\<lambda>x. (x, f x)) rest)"
    by simp
  then have sp: "snd p = f (fst p)"
    by auto
  show ?thesis
    using Cons sp by (simp add: best_by_def)
qed

lemma best_by_first_max:
  assumes "xs \<noteq> []"
  shows "\<exists>pre x post. xs = pre @ x # post \<and> best_by f xs = Some x
     \<and> (\<forall>y \<in> set pre. f y < f x) \<and> (\<forall>y \<in> set post. f y \<le> f x)"
  using assms
proof (induction xs)
  case Nil
  then show ?case by simp
next
  case (Cons a rest)
  show ?case
  proof (cases "rest = []")
    case True
    then have "a # rest = [] @ a # [] \<and> best_by f (a # rest) = Some a"
      by (simp add: best_by_Cons best_by_Nil)
    then show ?thesis
      by (metis empty_iff list.set(1))
  next
    case False
    then obtain pre x post where ih: "rest = pre @ x # post" "best_by f rest = Some x"
        "\<forall>y \<in> set pre. f y < f x" "\<forall>y \<in> set post. f y \<le> f x"
      using Cons.IH by blast
    show ?thesis
    proof (cases "f x \<le> f a")
      case True
      then have b: "best_by f (a # rest) = Some a"
        using ih(2) by (simp add: best_by_Cons)
      have "\<forall>y \<in> set rest. f y \<le> f a"
        using ih(1,3,4) True by auto
      then have "a # rest = [] @ a # rest \<and> best_by f (a # rest) = Some a
          \<and> (\<forall>y \<in> set []. f y < f a) \<and> (\<forall>y \<in> set rest. f y \<le> f a)"
        using b by simp
      then show ?thesis by blast
    next
      case False
      then have b: "best_by f (a # rest) = Some x"
        using ih(2) by (simp add: best_by_Cons)
      have "a # rest = (a # pre) @ x # post \<and> best_by f (a # rest) = Some x
          \<and> (\<forall>y \<in> set (a # pre). f y < f x) \<and> (\<forall>y \<in> set post. f y \<le> f x)"
        using ih b False by simp
      then show ?thesis by blast
    qed
  qed
qed

lemma openverse_width_rule:
  "(truthy (url (toMappingFromOpenverse r))
      \<and> (num_or0 (ov_width r) \<ge> m \<or> num_or0 (ov_width r) = 0))
   \<longleftrightarrow> spec_accepts m (toMappingFromOpenverse r)"
  by (simp add: spec_accepts_def toMappingFromOpenverse_def num_or0_def num_or_null_def
      split: option.splits)

lemma openverse_pick_best:
  "best_by (scoreOpenverseResult cfg toks) results = Some r \<Longrightarrow>
   openverse_pick cfg toks results
     = (if spec_accepts (MIN_WIDTH cfg) (toMappingFromOpenverse r)
        then Some (toMappingFromOpenverse r) else None)"
  using openverse_width_rule [of r "MIN_WIDTH cfg"]
  by (simp add: openverse_pick_def Let_def)

lemma commons_pick_best:
  "best_by (scoreCommonsPage cfg toks) pages = Some p \<Longrightarrow>
   commons_pick cfg toks pages
     = (if truthy (url (toMappingFromCommons p)) then Some (toMappingFromCommons p) else None)"
  by (simp add: commons_pick_def Let_def)

text \<open>
  C2 (amended). For a non-empty list of Openverse results, the result judged is the first
  one of maximal score, and its candidate is returned if and only if its url is non-empty
  and its width is unknown or at least \<open>MIN_WIDTH\<close>. For a non-empty list of Commons
  pages (first generation), the page judged is the first one of maximal score, and its
  candidate is returned if and only if its url is non-empty; its width is not looked at.
\<close>

theorem search_acceptance_rule:
  "(results \<noteq> [] \<longrightarrow>
      (\<exists>pre r post. results = pre @ r # post
         \<and> (\<forall>x \<in> set pre. scoreOpenverseResult cfg toks x < scoreOpenverseResult cfg toks r)
         \<and> (\<forall>x \<in> set post. scoreOpenverseResult cfg toks x \<le> scoreOpenverseResult cfg toks r)
         \<and> openverse_pick cfg toks results
             = (if spec_accepts (MIN_WIDTH cfg) (toMappingFromOpenverse r)
                then Some (toMappingFromOpenverse r) else None)))
   \<and> (pages \<noteq> [] \<longrightarrow>
      (\<exists>pre p post. pages = pre @ p # post
         \<and> (\<forall>x \<in> set pre. scoreCommonsPage cfg toks x < scoreCommonsPage cfg toks p)
         \<and> (\<forall>x \<in> set post. scoreCommonsPage cfg toks x \<le> scoreCommonsPage cfg toks p)
         \<and> commons_pick cfg toks pages
             = (if truthy (url (toMappingFromCommons p))
                then Some (toMappingFromCommons p) else None)))"
proof (intro conjI impI)
  assume "results \<noteq> []"
  then obtain pre r post where r: "results = pre @ r # post"
      "best_by (scoreOpenverseResult cfg toks) results = Some r"
      "\<forall>x \<in> set pre. scoreOpenverseResult cfg toks x < scoreOpenverseResult cfg toks r"
      "\<forall>x \<in> set post. scoreOpenverseResult cfg toks x \<le> scoreOpenverseResult cfg toks r"
    using best_by_first_max [of results "scoreOpenverseResult cfg toks"] by blast
  with openverse_pick_best [OF r(2)]
  show "\<exists>pre r post. results = pre @ r # post
         \<and> (\<forall>x \<in> set pre. scoreOpenverseResult cfg toks x < scoreOpenverseResult cfg toks r)
         \<and> (\<forall>x \<in> set post. scoreOpenverseResult cfg toks x \<le> scoreOpenverseResult cfg toks r)
         \<and> openverse_pick cfg toks results
             = (if spec_accepts (MIN_WIDTH cfg) (toMappingFromOpenverse r)
                then Some (toMappingFromOpenverse r) else None)"
    by blast
next
  assume "pages \<noteq> []"
  then obtain pre p post where p: "pages = pre @ p # post"
      "best_by (scoreCommonsPage cfg toks) pages = Some p"
      "\<forall>x \<in> set pre. scoreCommonsPage cfg toks x < scoreCommonsPage cfg toks p"
      "\<forall>x \<in> set post. scoreCommonsPage cfg toks x \<le> scoreCommonsPage cfg toks p"
    using best_by_first_max [of pages "scoreCommonsPage cfg toks"] by blast
  with commons_pick_best [OF p(2)]
  show "\<exists>pre p post. pages = pre @ p # post
         \<and> (\<forall>x \<in> set pre. scoreCommonsPage cfg toks x < scoreCommonsPage cfg toks p)
         \<and> (\<forall>x \<in> set post. scoreCommonsPage cfg toks x \<le> scoreCommonsPage cfg toks p)
         \<and> commons_pick cfg toks pages
             = (if truthy (url (toMappingFromCommons p))
                then Some (toMappingFromCommons p) else None)"
    by blast
qed

lemma score_example_result:
  "scoreOpenverseResult example_cfg [''bordeaux''] (example_result w)
     = (if num_or0 w \<ge> 2000 then 8 else if num_or0 w \<ge> 600 then 6 else 4)"
  by (simp add: scoreOpenverseResult_def example_result_def example_cfg_def str_or_def
      overlapScore_count tokens_Bordeaux tokens_Nil toLowerCase_def toLowerCase_char_def Let_def
      num_or0_def)

lemma stripHtml_Nil: "stripHtml [] = []"
  by code_simp

lemma stripHtml_license: "stripHtml ''CC BY-SA 4.0'' = ''CC BY-SA 4.0''"
  by code_simp

lemma tokens_file_Bordeaux: "tokens ''File:Bordeaux.jpg'' = [''file'', ''bordeaux'', ''jpg'']"
  by code_simp

lemma tokens_file_Garonne: "tokens ''File:Garonne.jpg'' = [''file'', ''garonne'', ''jpg'']"
  by code_simp

lemma score_narrow_page: "scoreCommonsPage example_cfg [''bordeaux''] narrow_page = 5"
  by (simp add: scoreCommonsPage_def narrow_page_def example_cfg_def cm_info_of_def str_or_def
      overlapScore_count tokens_file_Bordeaux tokens_Nil stripHtml_Nil stripHtml_license
      num_or0_def Let_def)

lemma score_plain_page: "scoreCommonsPage example_cfg [''bordeaux''] plain_page = 3"
  by (simp add: scoreCommonsPage_def plain_page_def example_cfg_def cm_info_of_def str_or_def
      overlapScore_count tokens_file_Garonne tokens_Nil stripHtml_Nil
      num_or0_def Let_def)

lemma accepts_example_result:
  "spec_accepts (MIN_WIDTH example_cfg) (toMappingFromOpenverse (example_result w))
     \<longleftrightarrow> (case num_or_null w of None \<Rightarrow> True | Some v \<Rightarrow> 600 \<le> v)"
  by (simp add: spec_accepts_def toMappingFromOpenverse_def example_result_def str_or_def
      example_cfg_def)

lemma two_split:
  "[a, b] = pre @ r # post \<longleftrightarrow>
     (pre = [] \<and> r = a \<and> post = [b]) \<or> (pre = [a] \<and> r = b \<and> post = [])"
  by (cases pre; cases "tl pre") (auto simp: Cons_eq_append_conv)

theorem search_acceptance_rule_witness:
  "openverse_pick example_cfg [''bordeaux''] [example_result (Some 400), example_result (Some 3000)]
     = Some (toMappingFromOpenverse (example_result (Some 3000)))
   \<and> openverse_pick example_cfg [''bordeaux''] [example_result (Some 400), example_result None]
     = None
   \<and> openverse_pick example_cfg [''bordeaux''] [example_result None, example_result (Some 400)]
     = Some (toMappingFromOpenverse (example_result None))
   \<and> commons_pick example_cfg [''bordeaux''] [plain_page, narrow_page]
     = Some (toMappingFromCommons narrow_page)"
proof -
  have u: "truthy (url (toMappingFromCommons narrow_page))"
    by (simp add: toMappingFromCommons_def narrow_page_def cm_info_of_def str_or_def Let_def)
  have a: "openverse_pick example_cfg [''bordeaux'']
        [example_result (Some 400), example_result (Some 3000)]
      = Some (toMappingFromOpenverse (example_result (Some 3000)))"
    using search_acceptance_rule [of "[example_result (Some 400), example_result (Some 3000)]"
        example_cfg "[''bordeaux'']" "[narrow_page]"]
    by (auto simp: two_split score_example_result accepts_example_result num_or0_def
        num_or_null_def)
  have b: "openverse_pick example_cfg [''bordeaux'']
        [example_result (Some 400), example_result None] = None"
    using search_acceptance_rule [of "[example_result (Some 400), example_result None]"
        example_cfg "[''bordeaux'']" "[narrow_page]"]
    by (auto simp: two_split score_example_result accepts_example_result num_or0_def
        num_or_null_def)
  have c: "openverse_pick example_cfg [''bordeaux'']
        [example_result None, example_result (Some 400)]
      = Some (toMappingFromOpenverse (example_result None))"
    using search_acceptance_rule [of "[example_result None, example_result (Some 400)]"
        example_cfg "[''bordeaux'']" "[narrow_page]"]
    by (auto simp: two_split score_example_result accepts_example_result num_or0_def
        num_or_null_def)
  have d: "commons_pick example_cfg [''bordeaux''] [plain_page, narrow_page]
      = Some (toMappingFromCommons narrow_page)"
    using search_acceptance_rule [of "[example_result None]" example_cfg "[''bordeaux'']"
        "[plain_page, narrow_page]"] u
    by (auto simp: two_split score_narrow_page score_plain_page)
  from a b c d show ?thesis by simp
qed

text \<open>
  A Commons page 400 pixels wide, with a url, is accepted under a minimum width of 600,
  by \<open>commons_pick\<close> and by the first-generation \<open>pickBestImageForEvent\<close> as a whole.
\<close>

theorem commons_accepts_narrow_counterexample:
  "commons_pick example_cfg [] [narrow_page] = Some (toMappingFromCommons narrow_page)
   \<and> \<not> spec_accepts (MIN_WIDTH example_cfg) (toMappingFromCommons narrow_page)
   \<and> snd (pickBestImageForEvent_v1 (example_cfg\<lparr>OFFICIAL_IMAGES := False\<rparr>) commons_world
        (blank_row\<lparr>uid := Some ''E2'', title := Some ''Concert''\<rparr>))
       = Inr (Some (toMappingFromCommons narrow_page))"
proof -
  have u: "truthy (url (toMappingFromCommons narrow_page))"
    by (simp add: toMappingFromCommons_def narrow_page_def cm_info_of_def str_or_def Let_def)
  have w: "width (toMappingFromCommons narrow_page) = Some 400"
    by (simp add: toMappingFromCommons_def narrow_page_def cm_info_of_def num_or_null_def Let_def)
  have b: "best_by (scoreCommonsPage cfg toks) [narrow_page] = Some narrow_page" for cfg toks
    by (simp add: best_by_def)
  have c: "commons_pick cfg toks [narrow_page] = Some (toMappingFromCommons narrow_page)" for cfg toks
    using u by (simp add: commons_pick_def b Let_def)
  have n: "\<not> spec_accepts (MIN_WIDTH example_cfg) (toMappingFromCommons narrow_page)"
    using w by (simp add: spec_accepts_def example_cfg_def)
  have s: "commons_step cfg commons_world t toks = Some (toMappingFromCommons narrow_page)" for cfg t toks
    by (simp add: commons_step_def commons_world_def str_or_def c Let_def)
  have o: "openverse_step cfg commons_world t toks = None" for cfg t toks
    by (simp add: openverse_step_def commons_world_def openverse_pick_def best_by_def)
  have e: "\<not> official_enabled (example_cfg\<lparr>OFFICIAL_IMAGES := False\<rparr>) row" for row
    by (simp add: official_enabled_def)
  have "snd (pickBestImageForEvent_v1 (example_cfg\<lparr>OFFICIAL_IMAGES := False\<rparr>) commons_world row)
      = Inr (Some (toMappingFromCommons narrow_page))" for row
    by (simp add: pickBestImageForEvent_v1_def Let_def e o s)
  with c n show ?thesis by simp
qed

subsection \<open>Cache Merge\<close>

lemma plain_get:
  "proto_entry st = None \<Longrightarrow> plain_key k \<Longrightarrow>
   store_get st k = (case own_props st k of None \<Rightarrow> Missing | Some e \<Rightarrow> Entry e)"
  by (simp add: store_get_def plain_key_def object_prototype_names_def split: option.splits)

lemma plain_set:
  "plain_key k \<Longrightarrow> store_set st k e = st\<lparr>own_props := (own_props st)(k \<mapsto> e)\<rparr>"
  by (auto simp: store_set_def plain_key_def object_prototype_names_def)

lemma plain_empty: "plain_key []"
  by (simp add: plain_key_def object_prototype_names_def)

lemma plain_skip:
  "proto_entry st = None \<Longrightarrow> plain_key k \<Longrightarrow>
   skip_existing st k \<longleftrightarrow> k \<noteq> [] \<and> spec_verified (own_props st k)"
  by (simp add: skip_existing_def plain_get spec_verified_def split: option.splits)

lemma plain_write:
  assumes "proto_entry st = None" "plain_key uidv" "plain_key slugv" "uidv \<noteq> []"
  shows "write_entry st uidv slugv e =
     st\<lparr>own_props := (if slugv \<noteq> [] \<and> ((own_props st)(uidv \<mapsto> e)) slugv = None
                       then (own_props st)(uidv \<mapsto> e, slugv \<mapsto> e)
                       else (own_props st)(uidv \<mapsto> e))\<rparr>"
proof -
  let ?e1 = "st\<lparr>own_props := (own_props st)(uidv \<mapsto> e)\<rparr>"
  have p1: "proto_entry ?e1 = None"
    using assms(1) by simp
  have g: "slot_truthy (store_get ?e1 slugv) \<longleftrightarrow> ((own_props st)(uidv \<mapsto> e)) slugv \<noteq> None"
    using plain_get [OF p1 assms(3)] by (simp split: option.splits)
  show ?thesis
    using assms(2,3,4) g by (simp add: write_entry_def plain_set Let_def)
qed

lemma plain_write_no_uid:
  assumes "proto_entry st = None" "plain_key slugv"
  shows "write_entry st [] slugv e =
     st\<lparr>own_props := (if slugv \<noteq> [] \<and> own_props st slugv = None
                       then (own_props st)(slugv \<mapsto> e) else own_props st)\<rparr>"
proof -
  have g: "slot_truthy (store_get st slugv) \<longleftrightarrow> own_props st slugv \<noteq> None"
    using plain_get [OF assms] by (simp split: option.splits)
  show ?thesis
    using assms(2) g by (simp add: write_entry_def plain_set Let_def)
qed

lemma merge_task_spec:
  assumes "proto_entry st = None" "plain_key uidv" "plain_key slugv" "uidv \<noteq> []"
  shows "merge_task st st uidv slugv e
     = st\<lparr>own_props := spec_mergeEntry (own_props st) uidv slugv e\<rparr>"
proof (cases "spec_verified (own_props st uidv)")
  case True
  then show ?thesis
    using assms by (simp add: merge_task_def plain_skip spec_mergeEntry_def)
next
  case False
  then show ?thesis
    using assms plain_write [OF assms, of e]
    by (simp add: merge_task_def plain_skip spec_mergeEntry_def)
qed

lemma merge_task_no_uid:
  assumes "proto_entry st = None" "plain_key slugv"
  shows "merge_task st st [] slugv e
     = st\<lparr>own_props := (if slugv \<noteq> [] \<and> own_props st slugv = None
                         then (own_props st)(slugv \<mapsto> e) else own_props st)\<rparr>"
  using plain_write_no_uid [OF assms, of e] by (simp add: merge_task_def skip_existing_def)

lemma spec_mergeEntry_idem:
  "spec_mergeEntry (spec_mergeEntry m k s e) k s e = spec_mergeEntry m k s e"
proof (cases "spec_verified (m k)")
  case True
  then show ?thesis by (simp add: spec_mergeEntry_def)
next
  case False
  let ?m1 = "spec_mergeEntry m k s e"
  have at: "?m1 k = Some e"
    using False by (simp add: spec_mergeEntry_def)
  have sl: "s \<noteq> [] \<Longrightarrow> ?m1 s \<noteq> None"
    using False by (auto simp: spec_mergeEntry_def)
  show ?thesis
  proof (cases "spec_verified (?m1 k)")
    case True
    then show ?thesis by (simp add: spec_mergeEntry_def)
  next
    case nv: False
    have "spec_mergeEntry ?m1 k s e = ?m1(k \<mapsto> e)"
      using nv sl by (cases "s = []") (auto simp: spec_mergeEntry_def)
    also have "\<dots> = ?m1"
      using at by (rule map_upd_triv)
    finally show ?thesis .
  qed
qed

lemma merge_task_idem:
  assumes "proto_entry st = None" "plain_key uidv" "plain_key slugv"
  shows "merge_task (merge_task st st uidv slugv e) (merge_task st st uidv slugv e) uidv slugv e
     = merge_task st st uidv slugv e"
proof (cases "uidv = []")
  case True
  let ?st1 = "merge_task st st [] slugv e"
  have m1: "?st1 = st\<lparr>own_props := (if slugv \<noteq> [] \<and> own_props st slugv = None
                         then (own_props st)(slugv \<mapsto> e) else own_props st)\<rparr>"
    using assms(1,3) by (rule merge_task_no_uid)
  have p1: "proto_entry ?st1 = None"
    using assms(1) by (simp add: m1)
  have nn: "slugv \<noteq> [] \<Longrightarrow> own_props ?st1 slugv \<noteq> None"
    by (subst m1) auto
  have "merge_task ?st1 ?st1 [] slugv e
      = ?st1\<lparr>own_props := (if slugv \<noteq> [] \<and> own_props ?st1 slugv = None
                              then (own_props ?st1)(slugv \<mapsto> e) else own_props ?st1)\<rparr>"
    using p1 assms(3) by (rule merge_task_no_uid)
  also have "\<dots> = ?st1\<lparr>own_props := own_props ?st1\<rparr>"
    using nn by (cases "slugv = []") auto
  also have "\<dots> = ?st1"
    by simp
  finally show ?thesis
    using True by simp
next
  case False
  let ?st1 = "merge_task st st uidv slugv e"
  have m1: "?st1 = st\<lparr>own_props := spec_mergeEntry (own_props st) uidv slugv e\<rparr>"
    using assms False by (rule merge_task_spec)
  have p1: "proto_entry ?st1 = None"
    using assms(1) by (simp add: m1)
  have "merge_task ?st1 ?st1 uidv slugv e
      = ?st1\<lparr>own_props := spec_mergeEntry (own_props ?st1) uidv slugv e\<rparr>"
    using p1 assms(2,3) False by (rule merge_task_spec)
  then show ?thesis
    by (simp add: m1 spec_mergeEntry_idem)
qed

text \<open>
  C4 (amended). Take a store whose prototype is the original one, an id and a slug that
  name no property of \<^verbatim>\<open>Object.prototype\<close>, and a task whose guard and writes see the
  same store. For a non-empty id: when the store holds an entry with a non-empty url under
  the id, the store is left unchanged, whatever the entry; otherwise the entry is set
  under the id, and also under the slug when the slug is non-empty and not yet a key; this
  is the merge of the specification. For an empty id, nothing is read or written under
  the id, and the entry is set under the slug when the slug is non-empty and not yet a
  key. In every case merging the same id, slug and entry a second time changes nothing.
\<close>

theorem merge_task_policy:
  "proto_entry st = None \<and> plain_key uidv \<and> plain_key slugv \<longrightarrow>
     (uidv \<noteq> [] \<and> spec_verified (own_props st uidv) \<longrightarrow> merge_task st st uidv slugv e = st)
   \<and> (uidv \<noteq> [] \<and> \<not> spec_verified (own_props st uidv) \<longrightarrow>
        merge_task st st uidv slugv e
          = st\<lparr>own_props := (if slugv \<noteq> [] \<and> slugv \<noteq> uidv \<and> own_props st slugv = None
                              then (own_props st)(uidv \<mapsto> e, slugv \<mapsto> e)
                              else (own_props st)(uidv \<mapsto> e))\<rparr>)
   \<and> (uidv \<noteq> [] \<longrightarrow>
        merge_task st st uidv slugv e
          = st\<lparr>own_props := spec_mergeEntry (own_props st) uidv slugv e\<rparr>)
   \<and> (uidv = [] \<longrightarrow>
        merge_task st st uidv slugv e
          = st\<lparr>own_props := (if slugv \<noteq> [] \<and> own_props st slugv = None
                              then (own_props st)(slugv \<mapsto> e) else own_props st)\<rparr>)
   \<and> merge_task (merge_task st st uidv slugv e) (merge_task st st uidv slugv e) uidv slugv e
       = merge_task st st uidv slugv e"
proof (intro impI)
  assume h: "proto_entry st = None \<and> plain_key uidv \<and> plain_key slugv"
  then have p: "proto_entry st = None" and ku: "plain_key uidv" and ks: "plain_key slugv"
    by simp_all
  have sp: "uidv \<noteq> [] \<Longrightarrow>
      merge_task st st uidv slugv e = st\<lparr>own_props := spec_mergeEntry (own_props st) uidv slugv e\<rparr>"
    using p ku ks by (rule merge_task_spec)
  have c1: "uidv \<noteq> [] \<and> spec_verified (own_props st uidv) \<longrightarrow> merge_task st st uidv slugv e = st"
    using sp by (simp add: spec_mergeEntry_def)
  have c2: "uidv \<noteq> [] \<and> \<not> spec_verified (own_props st uidv) \<longrightarrow>
        merge_task st st uidv slugv e
          = st\<lparr>own_props := (if slugv \<noteq> [] \<and> slugv \<noteq> uidv \<and> own_props st slugv = None
                              then (own_props st)(uidv \<mapsto> e, slugv \<mapsto> e)
                              else (own_props st)(uidv \<mapsto> e))\<rparr>"
    using sp by (auto simp: spec_mergeEntry_def)
  have c3: "uidv \<noteq> [] \<longrightarrow>
        merge_task st st uidv slugv e
          = st\<lparr>own_props := spec_mergeEntry (own_props st) uidv slugv e\<rparr>"
    using sp by simp
  have c4: "uidv = [] \<longrightarrow>
        merge_task st st uidv slugv e
          = st\<lparr>own_props := (if slugv \<noteq> [] \<and> own_props st slugv = None
                              then (own_props st)(slugv \<mapsto> e) else own_props st)\<rparr>"
    using merge_task_no_uid [OF p ks, of e] by simp
  have c5: "merge_task (merge_task st st uidv slugv e) (merge_task st st uidv slugv e) uidv slugv e
       = merge_task st st uidv slugv e"
    using p ku ks by (rule merge_task_idem)
  from c1 c2 c3 c4 c5
  show "(uidv \<noteq> [] \<and> spec_verified (own_props st uidv) \<longrightarrow> merge_task st st uidv slugv e = st)
   \<and> (uidv \<noteq> [] \<and> \<not> spec_verified (own_props st uidv) \<longrightarrow>
        merge_task st st uidv slugv e
          = st\<lparr>own_props := (if slugv \<noteq> [] \<and> slugv \<noteq> uidv \<and> own_props st slugv = None
                              then (own_props st)(uidv \<mapsto> e, slugv \<mapsto> e)
                              else (own_props st)(uidv \<mapsto> e))\<rparr>)
   \<and> (uidv \<noteq> [] \<longrightarrow>
        merge_task st st uidv slugv e
          = st\<lparr>own_props := spec_mergeEntry (own_props st) uidv slugv e\<rparr>)
   \<and> (uidv = [] \<longrightarrow>
        merge_task st st uidv slugv e
          = st\<lparr>own_props := (if slugv \<noteq> [] \<and> own_props st slugv = None
                              then (own_props st)(slugv \<mapsto> e) else own_props st)\<rparr>)
   \<and> merge_task (merge_task st st uidv slugv e) (merge_task st st uidv slugv e) uidv slugv e
       = merge_task st st uidv slugv e"
    by blast
qed

lemma plain_examples: "plain_key ''E1'' \<and> plain_key ''concert''"
  by (simp add: plain_key_def object_prototype_names_def)

lemma example_entry_verified: "truthy (url example_entry)"
  by (simp add: example_entry_def make_entry_def upstream_candidate_def)

theorem merge_task_policy_witness:
  "merge_task (empty_store\<lparr>own_props := Map.empty(''E1'' \<mapsto> example_entry)\<rparr>)
       (empty_store\<lparr>own_props := Map.empty(''E1'' \<mapsto> example_entry)\<rparr>) ''E1'' ''concert'' other_entry
     = empty_store\<lparr>own_props := Map.empty(''E1'' \<mapsto> example_entry)\<rparr>
   \<and> merge_task empty_store empty_store ''E1'' ''concert'' example_entry
     = empty_store\<lparr>own_props := Map.empty(''E1'' \<mapsto> example_entry, ''concert'' \<mapsto> example_entry)\<rparr>
   \<and> merge_task empty_store empty_store [] ''concert'' example_entry
     = empty_store\<lparr>own_props := Map.empty(''concert'' \<mapsto> example_entry)\<rparr>"
proof -
  let ?st = "empty_store\<lparr>own_props := Map.empty(''E1'' \<mapsto> example_entry)\<rparr>"
  have a: "merge_task ?st ?st ''E1'' ''concert'' other_entry = ?st"
    using merge_task_policy [of ?st "''E1''" "''concert''" other_entry] plain_examples
      example_entry_verified
    by (simp add: empty_store_def spec_verified_def)
  have b: "merge_task empty_store empty_store ''E1'' ''concert'' example_entry
     = empty_store\<lparr>own_props := Map.empty(''E1'' \<mapsto> example_entry, ''concert'' \<mapsto> example_entry)\<rparr>"
    using merge_task_policy [of empty_store "''E1''" "''concert''" example_entry] plain_examples
    by (simp add: empty_store_def spec_verified_def)
  have c: "merge_task empty_store empty_store [] ''concert'' example_entry
     = empty_store\<lparr>own_props := Map.empty(''concert'' \<mapsto> example_entry)\<rparr>"
    using merge_task_policy [of empty_store "[]" "''concert''" example_entry] plain_examples
      plain_empty
    by (simp add: empty_store_def)
  from a b c show ?thesis by simp
qed

text \<open>
  A row with a slug and no uid: the store holds no url under the empty id, and yet the
  merge does not set the entry under it.
\<close>

theorem merge_empty_id_counterexample:
  "own_props (merge_task empty_store empty_store [] ''concert'' example_entry) []
     \<noteq> Some example_entry"
  using merge_task_no_uid [of empty_store "''concert''" example_entry] plain_examples
  by (simp add: empty_store_def)

text \<open>
  Outside the hypotheses of the theorem: a slug that names a property of
  \<^verbatim>\<open>Object.prototype\<close> reads as present and is never written; the id \<^verbatim>\<open>__proto__\<close>
  replaces the prototype and creates no key; and a task whose writes see a store that
  another task with the same id has written in the meantime overwrites that entry.
\<close>

lemma inherited_slug_not_written:
  "own_props (merge_task empty_store empty_store ''E1'' ''constructor'' example_entry)
     ''constructor'' = None"
  by (simp add: merge_task_def skip_existing_def write_entry_def store_get_def store_set_def
      empty_store_def object_prototype_names_def Let_def)

lemma proto_uid_creates_no_key:
  "own_props (merge_task empty_store empty_store ''__proto__'' [] example_entry) ''__proto__'' = None
   \<and> proto_entry (merge_task empty_store empty_store ''__proto__'' [] example_entry)
       = Some example_entry"
  by (simp add: merge_task_def skip_existing_def write_entry_def store_get_def store_set_def
      empty_store_def Let_def)

lemma interleaved_overwrite:
  "own_props (merge_task empty_store
       (merge_task empty_store empty_store ''E1'' [] example_entry) ''E1'' [] other_entry) ''E1''
     = Some other_entry"
  by (simp add: merge_task_def skip_existing_def write_entry_def store_get_def store_set_def
      empty_store_def object_prototype_names_def Let_def)

text \<open>The store a task leaves when a candidate was picked is the merge of its entry.\<close>

lemma process_row_store:
  assumes "task_guard st row = Proceed"
    "pickBestImageForEvent cfg w row = (tr, Inr (Some picked))" "truthy (url picked)"
  shows "\<exists>st'. process_row cfg w now st row = (tr, Inr st')
     \<and> existing st' = merge_task (existing st) (existing st) (row_uid row) (row_slug row)
                         (make_entry picked (buildSearchQuery row) now)"
proof -
  have "\<not> skip_existing (existing st) (row_uid row)"
    using assms(1) by (auto simp: task_guard_def Let_def split: if_splits)
  then show ?thesis
    using assms by (simp add: process_row_def task_finish_def merge_task_def)
qed

text \<open>
  C10. When the uid and the slug of a row both trim to the empty string, the task of the
  row returns without querying any source and leaves the state, the store included, as it
  was.
\<close>

theorem process_row_without_keys:
  "row_uid row = [] \<and> row_slug row = [] \<longrightarrow> process_row cfg w now st row = ([], Inr st)"
  by (simp add: process_row_def task_guard_def Let_def)

theorem process_row_without_keys_witness:
  "process_row example_cfg down_world ''2024-01-01T00:00:00.000Z'' empty_state
      (blank_row\<lparr>uid := Some ''  '', title := Some ''Concert''\<rparr>)
     = ([], Inr empty_state)"
  using process_row_without_keys [of "blank_row\<lparr>uid := Some ''  '', title := Some ''Concert''\<rparr>"
      example_cfg down_world "''2024-01-01T00:00:00.000Z''" empty_state]
  by (simp add: row_uid_def row_slug_def blank_row_def str_or_def trim_def js_space_def)

subsection \<open>Concurrency Limiter\<close>

lemma inv_init: "1 \<le> n \<Longrightarrow> limiter_inv n (createLimiter n)"
  by (simp add: limiter_inv_def createLimiter_def)

lemma inv_submit: "limiter_inv n s \<Longrightarrow> limiter_inv n (submit s)"
  by (auto simp: limiter_inv_def submit_def next_task_def split: list.splits)

lemma length_remove1_int:
  assumes "i \<in> set xs"
  shows "int (length (remove1 i xs)) = int (length xs) - 1"
proof -
  have "0 < length xs"
    using assms by (rule length_pos_if_in_set)
  then have "int (length xs - 1) = int (length xs) - 1"
    by (cases "length xs") simp_all
  then show ?thesis
    using assms by (simp add: length_remove1)
qed

lemma distinct_mset_le:
  assumes "mset xs \<subseteq># mset ys" "distinct ys"
  shows "distinct xs"
proof -
  have "count (mset xs) a = (if a \<in> set xs then 1 else 0)" for a
  proof -
    have "count (mset xs) a \<le> count (mset ys) a"
      using assms(1) by (rule mset_subset_eq_count)
    moreover have "count (mset ys) a \<le> 1"
      using assms(2) by (simp add: distinct_count_atmost_1)
    ultimately have le1: "count (mset xs) a \<le> 1"
      by simp
    show ?thesis
    proof (cases "a \<in> set xs")
      case True
      then have "count (mset xs) a \<noteq> 0"
        by simp
      with le1 have "count (mset xs) a = 1"
        by linarith
      then show ?thesis
        using True by simp
    next
      case False
      then show ?thesis by simp
    qed
  qed
  then show ?thesis
    by (simp add: distinct_count_atmost_1)
qed

lemma inv_settle: "limiter_inv n s \<Longrightarrow> limiter_inv n (settle i ok s)"
  by (auto simp: limiter_inv_def settle_def length_remove1_int)

lemma inv_finalize: "limiter_inv n s \<Longrightarrow> limiter_inv n (finalize i s)"
  by (auto simp: limiter_inv_def finalize_def next_task_def length_remove1_int split: list.splits)

lemma inv_exec: "limiter_inv n s \<Longrightarrow> limiter_inv n (exec e s)"
  by (cases e) (simp_all add: inv_submit inv_settle inv_finalize)

lemma inv_run: "limiter_inv n s \<Longrightarrow> limiter_inv n (run evs s)"
  unfolding run_def by (induction evs arbitrary: s) (simp_all add: inv_exec)

lemma drain_finishing: "finishing s = i # rest \<Longrightarrow> drain s = drain (exec (Finally i) s)"
  by (subst drain.simps) simp

lemma drain_running:
  "finishing s = [] \<Longrightarrow> running s = i # rest \<Longrightarrow> drain s = drain (exec (Settle i False) s)"
  by (subst drain.simps) simp

lemma drain_idle: "finishing s = [] \<Longrightarrow> running s = [] \<Longrightarrow> drain s = s"
  by (subst drain.simps) simp

lemma run_append: "run (evs @ evs') s = run evs' (run evs s)"
  by (simp add: run_def)

lemma drain_is_run: "\<exists>evs. drain s = run evs s"
proof (induction s rule: drain.induct)
  case (1 s)
  show ?case
  proof (cases "finishing s")
    case (Cons i rest)
    then obtain evs where "drain (exec (Finally i) s) = run evs (exec (Finally i) s)"
      using "1.IH" by blast
    then have "drain s = run (Finally i # evs) s"
      using Cons by (simp add: run_def drain_finishing)
    then show ?thesis by blast
  next
    case Nil
    show ?thesis
    proof (cases "running s")
      case (Cons i rest)
      then obtain evs where "drain (exec (Settle i False) s) = run evs (exec (Settle i False) s)"
        using "1.IH" Nil by blast
      then have "drain s = run (Settle i False # evs) s"
        using Nil Cons by (simp add: run_def drain_running)
      then show ?thesis by blast
    next
      case nil2: Nil
      then have "drain s = run [] s"
        using Nil by (simp add: run_def drain_idle)
      then show ?thesis by blast
    qed
  qed
qed

lemma drain_quiet: "running (drain s) = [] \<and> finishing (drain s) = []"
proof (induction s rule: drain.induct)
  case (1 s)
  show ?case
  proof (cases "finishing s")
    case (Cons i rest)
    then show ?thesis using "1.IH" by (simp add: drain_finishing)
  next
    case Nil
    show ?thesis
    proof (cases "running s")
      case (Cons i rest)
      then show ?thesis using "1.IH" Nil by (simp add: drain_running)
    next
      case nil2: Nil
      then show ?thesis using Nil by (simp add: drain_idle)
    qed
  qed
qed

lemma submitted_settle: "submitted (settle i ok s) = submitted s"
  by (simp add: settle_def)

lemma submitted_finalize: "submitted (finalize i s) = submitted s"
  by (simp add: finalize_def next_task_def split: list.splits)

lemma drain_submitted: "submitted (drain s) = submitted s"
proof (induction s rule: drain.induct)
  case (1 s)
  show ?case
  proof (cases "finishing s")
    case (Cons i rest)
    then show ?thesis using "1.IH" by (simp add: submitted_finalize drain_finishing)
  next
    case Nil
    show ?thesis
    proof (cases "running s")
      case (Cons i rest)
      then show ?thesis using "1.IH" Nil by (simp add: submitted_settle drain_running)
    next
      case nil2: Nil
      then show ?thesis using Nil by (simp add: drain_idle)
    qed
  qed
qed

lemma inv_quiet_complete:
  assumes "limiter_inv n s" "1 \<le> n" "running s = []" "finishing s = []"
  shows "queue s = [] \<and> started s = [0..<submitted s]
     \<and> mset (map fst (completed s)) = mset [0..<submitted s]
     \<and> length (completed s) = submitted s"
proof -
  have a: "active s = 0"
    using assms by (simp add: limiter_inv_def)
  then have qe: "queue s = []"
    using assms by (auto simp: limiter_inv_def)
  then have st: "started s = [0..<submitted s]"
    using assms by (simp add: limiter_inv_def)
  have ms: "mset (map fst (completed s)) = mset [0..<submitted s]"
    using assms st by (simp add: limiter_inv_def)
  then have "size (mset (map fst (completed s))) = size (mset [0..<submitted s])"
    by simp
  then have "length (completed s) = submitted s"
    by simp
  with qe st ms show ?thesis by simp
qed

lemma inv_completed_distinct:
  assumes "limiter_inv n s"
  shows "distinct (map fst (completed s)) \<and> set (map fst (completed s)) \<subseteq> {0..<submitted s}"
proof -
  have sub: "mset (map fst (completed s)) \<subseteq># mset (started s)"
    using assms by (simp add: limiter_inv_def)
  have "started s @ queue s = [0..<submitted s]"
    using assms by (simp add: limiter_inv_def)
  then have d: "distinct (started s @ queue s)" and ss: "set (started s @ queue s) = {0..<submitted s}"
    by simp_all
  have "distinct (started s)" using d by simp
  then have "distinct (map fst (completed s))"
    using sub distinct_mset_le by blast
  moreover have "set (map fst (completed s)) \<subseteq> set (started s)"
    using sub by (metis set_mset_mono set_mset_mset)
  ultimately show ?thesis using ss by auto
qed


lemma finalize_starts_next:
  assumes "limiter_inv n s" "i \<in> set (finishing s)" "queue s = j # rest"
  shows "started (exec (Finally i) s) = started s @ [j] \<and> queue (exec (Finally i) s) = rest"
proof -
  have "active s = limit_max s"
    using assms(1,3) by (auto simp: limiter_inv_def)
  then show ?thesis
    using assms(2,3) by (simp add: finalize_def next_task_def)
qed

text \<open>
  C5. For a bound of at least 1 and every sequence of submissions, settlements (resolved
  or rejected) and \<^verbatim>\<open>.finally\<close> callbacks: the number of running tasks is at most the
  counter \<open>active\<close>, which is at most the bound; the tasks are started in the order of
  their submission, the queue holding the rest in that order; no task waits while the
  counter is below the bound, and the callback of a settled task starts the head of the
  queue; no task completes twice; when nothing is in flight every submitted task has
  completed exactly once; and letting every task in flight fail drains the queue and
  completes every submitted task.
\<close>

theorem limiter_guarantees:
  "1 \<le> n \<Longrightarrow>
   (let s = run evs (createLimiter n) in
      int (length (running s)) \<le> active s \<and> active s \<le> n
      \<and> started s @ queue s = [0..<submitted s]
      \<and> (queue s = [] \<or> active s = n)
      \<and> (\<forall>i \<in> set (finishing s). \<forall>j rest. queue s = j # rest \<longrightarrow>
            started (exec (Finally i) s) = started s @ [j] \<and> queue (exec (Finally i) s) = rest)
      \<and> distinct (map fst (completed s))
      \<and> set (map fst (completed s)) \<subseteq> {0..<submitted s}
      \<and> (running s = [] \<and> finishing s = [] \<longrightarrow>
            queue s = [] \<and> length (completed s) = submitted s
            \<and> mset (map fst (completed s)) = mset [0..<submitted s])
      \<and> (\<exists>evs'. drain s = run (evs @ evs') (createLimiter n))
      \<and> queue (drain s) = []
      \<and> length (completed (drain s)) = submitted s
      \<and> mset (map fst (completed (drain s))) = mset [0..<submitted s])"
proof -
  assume n: "1 \<le> n"
  define s where "s = run evs (createLimiter n)"
  have inv: "limiter_inv n s"
    unfolding s_def using n by (intro inv_run inv_init)
  obtain evs' where evs': "drain s = run evs' s"
    using drain_is_run by blast
  have dinv: "limiter_inv n (drain s)"
    unfolding evs' using inv by (rule inv_run)
  have dq: "queue (drain s) = [] \<and> started (drain s) = [0..<submitted (drain s)]
     \<and> mset (map fst (completed (drain s))) = mset [0..<submitted (drain s)]
     \<and> length (completed (drain s)) = submitted (drain s)"
    using dinv n drain_quiet [of s] by (intro inv_quiet_complete) simp_all
  have c1: "int (length (running s)) \<le> active s \<and> active s \<le> n"
    using inv by (simp add: limiter_inv_def)
  have c2: "started s @ queue s = [0..<submitted s]"
    using inv by (simp add: limiter_inv_def)
  have c3: "queue s = [] \<or> active s = n"
    using inv by (auto simp: limiter_inv_def)
  have c4: "\<forall>i \<in> set (finishing s). \<forall>j rest. queue s = j # rest \<longrightarrow>
            started (exec (Finally i) s) = started s @ [j] \<and> queue (exec (Finally i) s) = rest"
    using finalize_starts_next [OF inv] by blast
  have c5: "distinct (map fst (completed s)) \<and> set (map fst (completed s)) \<subseteq> {0..<submitted s}"
    using inv by (rule inv_completed_distinct)
  have c6: "running s = [] \<and> finishing s = [] \<longrightarrow>
            queue s = [] \<and> length (completed s) = submitted s
            \<and> mset (map fst (completed s)) = mset [0..<submitted s]"
    using inv_quiet_complete [OF inv n] by blast
  have c7: "\<exists>evs'. drain s = run (evs @ evs') (createLimiter n)"
    using evs' by (auto simp: s_def run_append)
  have c8: "queue (drain s) = [] \<and> length (completed (drain s)) = submitted s
      \<and> mset (map fst (completed (drain s))) = mset [0..<submitted s]"
    using dq by (simp add: drain_submitted)
  from c1 c2 c3 c4 c5 c6 c7 c8 have
    "int (length (running s)) \<le> active s \<and> active s \<le> n
      \<and> started s @ queue s = [0..<submitted s]
      \<and> (queue s = [] \<or> active s = n)
      \<and> (\<forall>i \<in> set (finishing s). \<forall>j rest. queue s = j # rest \<longrightarrow>
            started (exec (Finally i) s) = started s @ [j] \<and> queue (exec (Finally i) s) = rest)
      \<and> distinct (map fst (completed s))
      \<and> set (map fst (completed s)) \<subseteq> {0..<submitted s}
      \<and> (running s = [] \<and> finishing s = [] \<longrightarrow>
            queue s = [] \<and> length (completed s) = submitted s
            \<and> mset (map fst (completed s)) = mset [0..<submitted s])
      \<and> (\<exists>evs'. drain s = run (evs @ evs') (createLimiter n))
      \<and> queue (drain s) = []
      \<and> length (completed (drain s)) = submitted s
      \<and> mset (map fst (completed (drain s))) = mset [0..<submitted s]"
    by blast
  then show ?thesis
    unfolding Let_def s_def .
qed

lemma five_submitted:
  "submitted (run [Submit, Submit, Submit, Submit, Submit] (createLimiter 2)) = 5"
  by (simp add: run_def submit_def next_task_def createLimiter_def)

lemma three_one_failed:
  "run [Submit, Submit, Submit, Settle 0 False] (createLimiter 2)
     = \<lparr> limit_max = 2, active = 2, queue = [2], running = [1], finishing = [0],
         started = [0, 1], completed = [(0, False)], submitted = 3 \<rparr>"
  by (simp add: run_def submit_def next_task_def settle_def createLimiter_def)

lemma one_done:
  "run [Submit, Settle 0 True, Finally 0] (createLimiter 2)
     = \<lparr> limit_max = 2, active = 0, queue = [], running = [], finishing = [],
         started = [0], completed = [(0, True)], submitted = 1 \<rparr>"
  by (simp add: run_def submit_def next_task_def settle_def finalize_def createLimiter_def)

theorem limiter_guarantees_witness:
  "(1::int) \<le> 2
   \<and> active (run [Submit, Submit, Submit, Submit, Submit] (createLimiter 2)) \<le> 2
   \<and> length (completed (drain (run [Submit, Submit, Submit, Submit, Submit] (createLimiter 2)))) = 5
   \<and> queue (drain (run [Submit, Submit, Submit, Submit, Submit] (createLimiter 2))) = []
   \<and> started (exec (Finally 0) (run [Submit, Submit, Submit, Settle 0 False] (createLimiter 2)))
       = [0, 1, 2]
   \<and> length (completed (run [Submit, Settle 0 True, Finally 0] (createLimiter 2))) = 1"
proof -
  have h: "(1::int) \<le> 2" by simp
  have a: "active (run [Submit, Submit, Submit, Submit, Submit] (createLimiter 2)) \<le> 2
     \<and> length (completed (drain (run [Submit, Submit, Submit, Submit, Submit] (createLimiter 2)))) = 5
     \<and> queue (drain (run [Submit, Submit, Submit, Submit, Submit] (createLimiter 2))) = []"
    using limiter_guarantees [OF h, of "[Submit, Submit, Submit, Submit, Submit]"]
    unfolding Let_def five_submitted by simp
  have b: "started (exec (Finally 0) (run [Submit, Submit, Submit, Settle 0 False] (createLimiter 2)))
       = [0, 1, 2]"
    using limiter_guarantees [OF h, of "[Submit, Submit, Submit, Settle 0 False]"]
    unfolding Let_def three_one_failed by simp
  have c: "length (completed (run [Submit, Settle 0 True, Finally 0] (createLimiter 2))) = 1"
    using limiter_guarantees [OF h, of "[Submit, Settle 0 True, Finally 0]"]
    unfolding Let_def one_done by simp
  from h a b c show ?thesis by simp
qed

lemma zero_exec: "zero_inv s \<Longrightarrow> zero_inv (exec e s)"
  by (cases e) (simp_all add: zero_inv_def submit_def next_task_def settle_def finalize_def)

lemma zero_run: "zero_inv s \<Longrightarrow> zero_inv (run evs s)"
  unfolding run_def by (induction evs arbitrary: s) (simp_all add: zero_exec)

lemma submitted_submit: "submitted (submit s) = submitted s + 1"
  by (simp add: submit_def next_task_def split: list.splits)

lemma submitted_run: "submitted (run evs s) = submitted s + count_list evs Submit"
  unfolding run_def
proof (induction evs arbitrary: s)
  case Nil
  show ?case by simp
next
  case (Cons e evs)
  show ?case
    by (cases e) (simp_all add: Cons.IH submitted_submit submitted_settle submitted_finalize)
qed

text \<open>
  C9. With the bound 0, whatever is submitted and whatever the event loop does, no task
  function is ever called, no returned promise ever settles, and every submission stays
  in the queue.
\<close>

theorem limiter_zero_never_runs:
  "started (run evs (createLimiter 0)) = []
   \<and> running (run evs (createLimiter 0)) = []
   \<and> completed (run evs (createLimiter 0)) = []
   \<and> queue (run evs (createLimiter 0)) = [0..<count_list evs Submit]
   \<and> drain (run evs (createLimiter 0)) = run evs (createLimiter 0)"
proof -
  have "zero_inv (createLimiter 0)"
    by (simp add: zero_inv_def createLimiter_def)
  then have z: "zero_inv (run evs (createLimiter 0))"
    by (rule zero_run)
  have "submitted (run evs (createLimiter 0)) = count_list evs Submit"
    by (simp add: submitted_run createLimiter_def)
  with z show ?thesis
    by (simp add: zero_inv_def drain_idle)
qed

theorem limiter_zero_never_runs_witness:
  "started (run [Submit, Submit, Settle 0 True, Finally 0] (createLimiter 0)) = []
   \<and> completed (run [Submit, Submit, Settle 0 True, Finally 0] (createLimiter 0)) = []
   \<and> queue (run [Submit, Submit, Settle 0 True, Finally 0] (createLimiter 0)) = [0, 1]"
  using limiter_zero_never_runs [of "[Submit, Submit, Settle 0 True, Finally 0]"]
  by (simp add: upt_rec)

end
